theory Spec2Isabelle
  imports Complex_Main "HOL-Library.Sublist" "HOL-Library.Product_Lexorder"
begin

text \<open>
  A shallow embedding of the search-and-ranking subsystem and of the enrichment queue of
  the AI Bookmark Brain extension: the strategy configuration, the search engine with its
  category prefix, the garbled-content detector, and the queue with its storage layer and
  its repair sub-flow. The definitions follow the TypeScript sources function by function;
  what the program takes from its runtime and from libraries is a parameter. The
  properties proved are stated after all definitions.
\<close>

section \<open>JavaScript strings\<close>

text \<open>
  A JavaScript string is a sequence of UTF-16 code units. The program only compares code
  units and counts them (\<^verbatim>\<open>length\<close>, regular expressions without the \<^verbatim>\<open>u\<close> flag), so a
  code unit is modelled by its numeric value and a string by the list of its code units.
  \<open>js\<close> embeds an ASCII literal of the source.
\<close>

type_synonym jschar = nat
type_synonym jsstring = "jschar list"

definition js :: "string \<Rightarrow> jsstring" where
  "js s = map of_char s"

text \<open>
  The characters removed by \<^verbatim>\<open>String.prototype.trim\<close> and matched by \<^verbatim>\<open>\s\<close>: ECMAScript's
  WhiteSpace (TAB, VT, FF, SP, NBSP, ZWNBSP and the category Zs) and LineTerminator
  (LF, CR, LS, PS). The dot of a regular expression matches everything but a LineTerminator.
\<close>

definition isLineTerminator :: "jschar \<Rightarrow> bool" where
  "isLineTerminator c = (c = 0x000A \<or> c = 0x000D \<or> c = 0x2028 \<or> c = 0x2029)"

definition isWhiteSpace :: "jschar \<Rightarrow> bool" where
  "isWhiteSpace c =
     (c = 0x0009 \<or> c = 0x000B \<or> c = 0x000C \<or> c = 0x0020 \<or> c = 0x00A0 \<or> c = 0xFEFF \<or>
      c = 0x1680 \<or> (0x2000 \<le> c \<and> c \<le> 0x200A) \<or> c = 0x202F \<or> c = 0x205F \<or> c = 0x3000 \<or>
      isLineTerminator c)"

definition trim :: "jsstring \<Rightarrow> jsstring" where
  "trim s = rev (dropWhile isWhiteSpace (rev (dropWhile isWhiteSpace s)))"

text \<open>\<^verbatim>\<open>text.includes(query)\<close>: \<open>query\<close> occurs in \<open>text\<close> as a contiguous substring.\<close>

fun str_includes :: "jsstring \<Rightarrow> jsstring \<Rightarrow> bool" where
  "str_includes [] q = (q = [])"
| "str_includes (c # cs) q = (prefix q (c # cs) \<or> str_includes cs q)"

section \<open>Strategy configuration (search-config.ts)\<close>

datatype SearchField =
  FieldUrl | FieldTitle | FieldTag | FieldSummary | FieldCategory | FieldNotes | FieldContent

datatype MatchMode = ExactCase | Exact | Pinyin | Fuzzy

record SearchStrategy =
  strategy_id :: jsstring
  field :: SearchField
  matchType :: MatchMode
  enabled :: bool
  label :: jsstring
  labelZh :: jsstring

text \<open>One entry of the user's saved order, \<^verbatim>\<open>{ id, enabled }\<close>.\<close>

record SavedStrategy =
  saved_id :: jsstring
  saved_enabled :: bool

text \<open>\<^verbatim>\<open>SearchStrategyOrder\<close>; \<open>None\<close> is a missing \<^verbatim>\<open>strategies\<close> property.\<close>

record SearchStrategyOrder =
  strategies :: "SavedStrategy list option"

definition DEFAULT_SEARCH_STRATEGIES :: "SearchStrategy list" where
  "DEFAULT_SEARCH_STRATEGIES = [
   \<lparr>strategy_id = js ''url_exact_case'', field = FieldUrl, matchType = ExactCase, enabled = True,
     label = js ''URL (Exact)'', labelZh = js ''URL'' @ [0xFF08, 0x7CBE, 0x786E, 0xFF09]\<rparr>,
   \<lparr>strategy_id = js ''url_exact'', field = FieldUrl, matchType = Exact, enabled = True,
     label = js ''URL (Case-insensitive)'', labelZh = js ''URL'' @ [0xFF08, 0x5FFD, 0x7565, 0x5927, 0x5C0F, 0x5199, 0xFF09]\<rparr>,
   \<lparr>strategy_id = js ''url_pinyin'', field = FieldUrl, matchType = Pinyin, enabled = True,
     label = js ''URL (Pinyin)'', labelZh = js ''URL'' @ [0xFF08, 0x62FC, 0x97F3, 0xFF09]\<rparr>,
   \<lparr>strategy_id = js ''url_fuzzy'', field = FieldUrl, matchType = Fuzzy, enabled = True,
     label = js ''URL (Fuzzy)'', labelZh = js ''URL'' @ [0xFF08, 0x6A21, 0x7CCA, 0xFF09]\<rparr>,
   \<lparr>strategy_id = js ''title_exact_case'', field = FieldTitle, matchType = ExactCase, enabled = True,
     label = js ''Title (Exact)'', labelZh = [0x6807, 0x9898, 0xFF08, 0x7CBE, 0x786E, 0xFF09]\<rparr>,
   \<lparr>strategy_id = js ''title_exact'', field = FieldTitle, matchType = Exact, enabled = True,
     label = js ''Title (Case-insensitive)'', labelZh = [0x6807, 0x9898, 0xFF08, 0x5FFD, 0x7565, 0x5927, 0x5C0F, 0x5199, 0xFF09]\<rparr>,
   \<lparr>strategy_id = js ''title_pinyin'', field = FieldTitle, matchType = Pinyin, enabled = True,
     label = js ''Title (Pinyin)'', labelZh = [0x6807, 0x9898, 0xFF08, 0x62FC, 0x97F3, 0xFF09]\<rparr>,
   \<lparr>strategy_id = js ''title_fuzzy'', field = FieldTitle, matchType = Fuzzy, enabled = True,
     label = js ''Title (Fuzzy)'', labelZh = [0x6807, 0x9898, 0xFF08, 0x6A21, 0x7CCA, 0xFF09]\<rparr>,
   \<lparr>strategy_id = js ''tag_exact_case'', field = FieldTag, matchType = ExactCase, enabled = True,
     label = js ''Tag (Exact)'', labelZh = [0x6807, 0x7B7E, 0xFF08, 0x7CBE, 0x786E, 0xFF09]\<rparr>,
   \<lparr>strategy_id = js ''tag_exact'', field = FieldTag, matchType = Exact, enabled = True,
     label = js ''Tag (Case-insensitive)'', labelZh = [0x6807, 0x7B7E, 0xFF08, 0x5FFD, 0x7565, 0x5927, 0x5C0F, 0x5199, 0xFF09]\<rparr>,
   \<lparr>strategy_id = js ''tag_pinyin'', field = FieldTag, matchType = Pinyin, enabled = True,
     label = js ''Tag (Pinyin)'', labelZh = [0x6807, 0x7B7E, 0xFF08, 0x62FC, 0x97F3, 0xFF09]\<rparr>,
   \<lparr>strategy_id = js ''tag_fuzzy'', field = FieldTag, matchType = Fuzzy, enabled = True,
     label = js ''Tag (Fuzzy)'', labelZh = [0x6807, 0x7B7E, 0xFF08, 0x6A21, 0x7CCA, 0xFF09]\<rparr>,
   \<lparr>strategy_id = js ''summary_exact'', field = FieldSummary, matchType = Exact, enabled = True,
     label = js ''AI Summary'', labelZh = js ''AI '' @ [0x6458, 0x8981]\<rparr>,
   \<lparr>strategy_id = js ''summary_fuzzy'', field = FieldSummary, matchType = Fuzzy, enabled = True,
     label = js ''AI Summary (Fuzzy)'', labelZh = js ''AI '' @ [0x6458, 0x8981, 0xFF08, 0x6A21, 0x7CCA, 0xFF09]\<rparr>,
   \<lparr>strategy_id = js ''category_exact'', field = FieldCategory, matchType = Exact, enabled = True,
     label = js ''Category'', labelZh = [0x5206, 0x7C7B]\<rparr>,
   \<lparr>strategy_id = js ''category_pinyin'', field = FieldCategory, matchType = Pinyin, enabled = True,
     label = js ''Category (Pinyin)'', labelZh = [0x5206, 0x7C7B, 0xFF08, 0x62FC, 0x97F3, 0xFF09]\<rparr>,
   \<lparr>strategy_id = js ''notes_exact'', field = FieldNotes, matchType = Exact, enabled = True,
     label = js ''Notes'', labelZh = [0x7B14, 0x8BB0]\<rparr>,
   \<lparr>strategy_id = js ''notes_fuzzy'', field = FieldNotes, matchType = Fuzzy, enabled = True,
     label = js ''Notes (Fuzzy)'', labelZh = [0x7B14, 0x8BB0, 0xFF08, 0x6A21, 0x7CCA, 0xFF09]\<rparr>]"

text \<open>
  \<^verbatim>\<open>calculateScore\<close>. JavaScript numbers are IEEE doubles; the model computes in the reals.
  Rounding is monotone, so every comparison of scores proved here also holds of the doubles.
\<close>

definition calculateScore :: "nat \<Rightarrow> nat \<Rightarrow> real" where
  "calculateScore strategyIndex totalStrategies =
     (let maxScore = 100;
          minScore = 40;
          ratio = real strategyIndex / real_of_int (max 1 (int totalStrategies - 1))
      in maxScore - ratio * (maxScore - minScore))"

text \<open>\<^verbatim>\<open>new Map(DEFAULT_SEARCH_STRATEGIES.map(s => [s.id, s]))\<close>: a later entry replaces an
  earlier one with the same key.\<close>

definition defaultMap :: "jsstring \<rightharpoonup> SearchStrategy" where
  "defaultMap = fold (\<lambda>s m. m(strategy_id s \<mapsto> s)) DEFAULT_SEARCH_STRATEGIES Map.empty"

text \<open>The first loop of \<^verbatim>\<open>loadSearchStrategies\<close>, threading \<^verbatim>\<open>result\<close> and \<^verbatim>\<open>usedIds\<close>.\<close>

fun load_saved :: "SavedStrategy list \<Rightarrow> SearchStrategy list \<Rightarrow> jsstring set
    \<Rightarrow> SearchStrategy list \<times> jsstring set" where
  "load_saved [] result usedIds = (result, usedIds)"
| "load_saved (saved # rest) result usedIds =
     (case defaultMap (saved_id saved) of
        Some defaultStrategy \<Rightarrow>
          load_saved rest (result @ [defaultStrategy\<lparr>enabled := saved_enabled saved\<rparr>])
            (insert (saved_id saved) usedIds)
      | None \<Rightarrow> load_saved rest result usedIds)"

text \<open>The second loop: the defaults that were not used, appended in default order.\<close>

fun add_missing :: "SearchStrategy list \<Rightarrow> SearchStrategy list \<Rightarrow> jsstring set
    \<Rightarrow> SearchStrategy list" where
  "add_missing [] result usedIds = result"
| "add_missing (defaultStrategy # rest) result usedIds =
     (if strategy_id defaultStrategy \<notin> usedIds
      then add_missing rest (result @ [defaultStrategy]) usedIds
      else add_missing rest result usedIds)"

definition loadSearchStrategies :: "SearchStrategyOrder \<Rightarrow> SearchStrategy list" where
  "loadSearchStrategies savedOrder =
     (case strategies savedOrder of
        None \<Rightarrow> DEFAULT_SEARCH_STRATEGIES
      | Some saved \<Rightarrow>
          if length saved = 0 then DEFAULT_SEARCH_STRATEGIES
          else (case load_saved saved [] {} of
                  (result, usedIds) \<Rightarrow> add_missing DEFAULT_SEARCH_STRATEGIES result usedIds))"

definition getEnabledStrategies :: "SearchStrategy list \<Rightarrow> SearchStrategy list" where
  "getEnabledStrategies strats = filter enabled strats"

text \<open>
  The merge rule in the specification's words: for each saved pair, in saved order, the
  default definition with that id carrying the saved flag; then the defaults whose id no
  saved pair names, in default order; the defaults themselves when nothing is saved.
\<close>

definition emit_saved :: "SavedStrategy \<Rightarrow> SearchStrategy list" where
  "emit_saved saved =
     map (\<lambda>d. d\<lparr>enabled := saved_enabled saved\<rparr>)
       (filter (\<lambda>d. strategy_id d = saved_id saved) DEFAULT_SEARCH_STRATEGIES)"

definition loadStrategies_spec :: "SavedStrategy list option \<Rightarrow> SearchStrategy list" where
  "loadStrategies_spec savedOverrides =
     (case savedOverrides of
        None \<Rightarrow> DEFAULT_SEARCH_STRATEGIES
      | Some saved \<Rightarrow>
          if saved = [] then DEFAULT_SEARCH_STRATEGIES
          else concat (map emit_saved saved) @
               filter (\<lambda>d. strategy_id d \<notin> saved_id ` set saved) DEFAULT_SEARCH_STRATEGIES)"

section \<open>The search engine (search-engine.ts, frecency.service.ts)\<close>

subsection \<open>Data\<close>

datatype BookmarkStatus = Pending | Analyzing | Completed | Failed

text \<open>
  \<^verbatim>\<open>Bookmark\<close> (shared types), with the fields the modelled functions read or write. An
  optional property is an \<open>option\<close>; timestamps are integers (milliseconds); ids are row ids.
\<close>

record Bookmark =
  b_id :: nat
  url :: jsstring
  originalTitle :: jsstring
  pageContent :: "jsstring option"
  pageContentHash :: "jsstring option"
  userNotes :: "jsstring option"
  status :: BookmarkStatus
  errorMessage :: "jsstring option"
  retryCount :: nat
  fetchFailedAt :: "int option"
  fetchFailReason :: "jsstring option"
  isPinned :: bool
  createdAt :: int
  analyzedAt :: "int option"
  contentFetchedAt :: "int option"
  lastUpdated :: int

record AISummary =
  s_id :: nat
  bookmarkId :: nat
  aiProvider :: jsstring
  aiModel :: "jsstring option"
  summaryText :: jsstring
  summaryOriginal :: "jsstring option"
  confidenceScore :: "real option"
  language :: "jsstring option"
  summary_createdAt :: int

record Tag =
  tag_name :: jsstring
  tag_nameZh :: "jsstring option"
  tag_nameEn :: "jsstring option"
  tag_namePinyin :: "jsstring option"

record Category =
  cat_name :: jsstring
  cat_namePinyin :: "jsstring option"

record BookmarkWithDetails = Bookmark +
  summary :: "AISummary option"
  tags :: "Tag list option"
  category :: "Category option"

datatype MatchType =
  MT_exact_case | MT_exact | MT_title | MT_url | MT_summary | MT_tag | MT_category |
  MT_notes | MT_content | MT_fuzzy | MT_pinyin | MT_semantic

datatype SearchType = SearchDefault | SearchFulltext | SearchTag | SearchCategory

record SearchResult =
  bookmark :: BookmarkWithDetails
  score :: real
  result_matchType :: MatchType
  matchedField :: jsstring

record SearchOptions =
  query :: jsstring
  searchType :: "SearchType option"
  limit :: "nat option"

subsection \<open>What the engine takes from the runtime and from libraries\<close>

text \<open>
  \<^item> \<open>toLowerCase\<close>: \<^verbatim>\<open>String.prototype.toLowerCase\<close>, the Unicode lower-casing table of the
    runtime;
  \<^item> \<open>pinyinMatch\<close>: \<^verbatim>\<open>pinyinMatch.match(text, query)\<close> of the pinyin-match package, read for
    its truthiness; \<open>None\<close> when the call throws;
  \<^item> \<open>fuseSearch\<close>: the ranked hit list of the Fuse.js index built over the given snapshot,
    for a query; the \<^verbatim>\<open>limit\<close> option of Fuse.js cuts this list to its first entries;
  \<^item> \<open>frecencySort\<close>: \<^verbatim>\<open>Frecency.sort\<close> of the frecency package; \<open>None\<close> when it throws.
  Every theorem below holds for all values of these parameters unless it names an
  assumption about one of them.
\<close>

record FuseResult =
  item :: BookmarkWithDetails
  fuse_score :: "real option"

record FrecencyItem =
  item_id :: nat
  originalIndex :: nat

record Libs =
  toLowerCase :: "jsstring \<Rightarrow> jsstring"
  pinyinMatch :: "jsstring \<Rightarrow> jsstring \<Rightarrow> bool option"
  fuseSearch :: "BookmarkWithDetails list \<Rightarrow> jsstring \<Rightarrow> FuseResult list"
  frecencySort :: "jsstring \<Rightarrow> FrecencyItem list \<Rightarrow> FrecencyItem list option"

text \<open>The module's cache after \<^verbatim>\<open>refreshIndex\<close>: the snapshot, whether the Fuse.js index
  exists, and the strategies loaded from the user's configuration.\<close>

record SearchState =
  searchIndex :: "BookmarkWithDetails list"
  fuseInstance :: bool
  activeStrategies :: "SearchStrategy list"

subsection \<open>The category prefix\<close>

text \<open>
  \<^verbatim>\<open>CATEGORY_PREFIX = /^[@\uFF20]([^\s]+)(?:\s+(.*))?$/\<close>, as the pair of its capture groups.
  The first group is greedy and the optional group can only start at a white-space
  character, so the first group is the whole run of non-white-space characters after the
  sign. If the string ends there the second group is undefined (\<open>None\<close>). Otherwise
  \<^verbatim>\<open>\s+\<close> takes the white-space run and \<^verbatim>\<open>(.*)$\<close> has to take the rest, which
  therefore may not contain a line terminator; giving back white space to the second
  group cannot help, since that leaves the same rest behind it.
\<close>

definition match_CATEGORY_PREFIX :: "jsstring \<Rightarrow> (jsstring \<times> jsstring option) option" where
  "match_CATEGORY_PREFIX s =
     (case s of
        [] \<Rightarrow> None
      | c # cs \<Rightarrow>
          if c = 0x0040 \<or> c = 0xFF20 then
            (let token = takeWhile (\<lambda>x. \<not> isWhiteSpace x) cs;
                 after = dropWhile (\<lambda>x. \<not> isWhiteSpace x) cs
             in if token = [] then None
                else if after = [] then Some (token, None)
                else (let rest = dropWhile isWhiteSpace after
                      in if list_ex isLineTerminator rest then None
                         else Some (token, Some rest)))
          else None)"

definition isCategorySearch :: "jsstring \<Rightarrow> bool" where
  "isCategorySearch q = (match_CATEGORY_PREFIX (trim q) \<noteq> None)"

record CategoryQuery =
  cq_category :: jsstring
  cq_keyword :: jsstring

definition parseCategorySearch :: "jsstring \<Rightarrow> CategoryQuery" where
  "parseCategorySearch q =
     (case match_CATEGORY_PREFIX (trim q) of
        Some (g1, g2) \<Rightarrow>
          \<lparr>cq_category = g1,
           cq_keyword = trim (case g2 of None \<Rightarrow> [] | Some r \<Rightarrow> r)\<rparr>
      | None \<Rightarrow> \<lparr>cq_category = [], cq_keyword = q\<rparr>)"

subsection \<open>Matching primitives\<close>

definition checkMatch :: "Libs \<Rightarrow> jsstring \<Rightarrow> jsstring \<Rightarrow> MatchMode \<Rightarrow> bool" where
  "checkMatch L q text mode =
     (if text = [] then False
      else case mode of
        ExactCase \<Rightarrow> str_includes text q
      | Exact \<Rightarrow> str_includes (toLowerCase L text) (toLowerCase L q)
      | Pinyin \<Rightarrow> (case pinyinMatch L text q of Some r \<Rightarrow> r | None \<Rightarrow> False)
      | Fuzzy \<Rightarrow> False)"

text \<open>\<^verbatim>\<open>[...].filter(Boolean)\<close> on strings: undefined and the empty string are dropped.\<close>

fun filterBoolean :: "jsstring option list \<Rightarrow> jsstring list" where
  "filterBoolean [] = []"
| "filterBoolean (None # xs) = filterBoolean xs"
| "filterBoolean (Some s # xs) = (if s = [] then filterBoolean xs else s # filterBoolean xs)"

definition getFieldText :: "BookmarkWithDetails \<Rightarrow> SearchField \<Rightarrow> jsstring list" where
  "getFieldText b f =
     (case f of
        FieldUrl \<Rightarrow> filterBoolean [Some (url b)]
      | FieldTitle \<Rightarrow> filterBoolean [Some (originalTitle b)]
      | FieldTag \<Rightarrow>
          (case tags b of
             None \<Rightarrow> []
           | Some ts \<Rightarrow>
               concat (map (\<lambda>t. filterBoolean
                 [Some (tag_name t), tag_nameZh t, tag_nameEn t, tag_namePinyin t]) ts))
      | FieldSummary \<Rightarrow>
          (case summary b of None \<Rightarrow> [] | Some s \<Rightarrow> filterBoolean [Some (summaryText s)])
      | FieldCategory \<Rightarrow>
          (case category b of
             None \<Rightarrow> []
           | Some cat \<Rightarrow> filterBoolean [Some (cat_name cat), cat_namePinyin cat])
      | FieldNotes \<Rightarrow> filterBoolean [userNotes b]
      | FieldContent \<Rightarrow> filterBoolean [pageContent b])"

text \<open>\<^verbatim>\<open>fieldToMatchType\<close>: the four modes return before the per-field fallback is reached.\<close>

definition fieldToMatchType :: "SearchField \<Rightarrow> MatchMode \<Rightarrow> MatchType" where
  "fieldToMatchType f mode =
     (case mode of
        ExactCase \<Rightarrow> MT_exact_case | Exact \<Rightarrow> MT_exact | Pinyin \<Rightarrow> MT_pinyin | Fuzzy \<Rightarrow> MT_fuzzy)"

definition fieldName :: "SearchField \<Rightarrow> jsstring" where
  "fieldName f =
     (case f of
        FieldUrl \<Rightarrow> js ''url'' | FieldTitle \<Rightarrow> js ''title'' | FieldTag \<Rightarrow> js ''tag''
      | FieldSummary \<Rightarrow> js ''summary'' | FieldCategory \<Rightarrow> js ''category''
      | FieldNotes \<Rightarrow> js ''notes'' | FieldContent \<Rightarrow> js ''content'')"

subsection \<open>Phase 1: strategies in priority order\<close>

text \<open>\<^verbatim>\<open>Map<number, SearchResult>\<close>: keys keep their insertion order and \<^verbatim>\<open>set\<close> on a key that
  is present replaces its value in place.\<close>

type_synonym ResultMap = "(nat \<times> SearchResult) list"

fun map_set :: "nat \<Rightarrow> SearchResult \<Rightarrow> ResultMap \<Rightarrow> ResultMap" where
  "map_set k v [] = [(k, v)]"
| "map_set k v ((k', v') # m) = (if k' = k then (k, v) # m else (k', v') # map_set k v m)"

text \<open>
  The inner loop over \<^verbatim>\<open>enabledStrategies\<close>, from index \<open>i\<close> on: \<open>strats\<close> is the part of the
  list that starts at \<open>i\<close>. It returns the strategy's score, match type and field at the first
  strategy that is neither skipped nor without a match.
\<close>

fun bestMatch :: "Libs \<Rightarrow> SearchType \<Rightarrow> jsstring \<Rightarrow> BookmarkWithDetails \<Rightarrow> nat \<Rightarrow> nat
    \<Rightarrow> SearchStrategy list \<Rightarrow> (real \<times> MatchType \<times> jsstring) option" where
  "bestMatch L st q b totalStrategies i [] = None"
| "bestMatch L st q b totalStrategies i (strategy # rest) =
     (if field strategy = FieldContent \<and> st \<noteq> SearchFulltext
      then bestMatch L st q b totalStrategies (i + 1) rest
      else if matchType strategy = Fuzzy
      then bestMatch L st q b totalStrategies (i + 1) rest
      else if list_ex (\<lambda>text. checkMatch L q text (matchType strategy))
                (getFieldText b (field strategy))
      then Some (calculateScore i totalStrategies,
                 fieldToMatchType (field strategy) (matchType strategy),
                 fieldName (field strategy))
      else bestMatch L st q b totalStrategies (i + 1) rest)"

fun strategyPhase :: "Libs \<Rightarrow> SearchType \<Rightarrow> jsstring \<Rightarrow> SearchStrategy list
    \<Rightarrow> BookmarkWithDetails list \<Rightarrow> ResultMap \<Rightarrow> ResultMap" where
  "strategyPhase L st q enabledStrategies [] results = results"
| "strategyPhase L st q enabledStrategies (b # filteredIndex) results =
     strategyPhase L st q enabledStrategies filteredIndex
       (case bestMatch L st q b (length enabledStrategies) 0 enabledStrategies of
          Some (sc, mt, fld) \<Rightarrow>
            map_set (b_id b)
              \<lparr>bookmark = b, score = sc, result_matchType = mt, matchedField = fld\<rparr> results
        | None \<Rightarrow> results)"

subsection \<open>Phase 2: fuzzy hits\<close>

text \<open>\<^verbatim>\<open>Array.prototype.findIndex\<close>; \<open>None\<close> is the result -1.\<close>

fun findIndex :: "('a \<Rightarrow> bool) \<Rightarrow> 'a list \<Rightarrow> nat option" where
  "findIndex P [] = None"
| "findIndex P (x # xs) =
     (if P x then Some 0 else (case findIndex P xs of None \<Rightarrow> None | Some i \<Rightarrow> Some (i + 1)))"

definition fuzzyBaseScore :: "SearchStrategy list \<Rightarrow> real" where
  "fuzzyBaseScore enabledStrategies =
     (case findIndex (\<lambda>s. matchType s = Fuzzy) enabledStrategies of
        Some fuzzyIndex \<Rightarrow> calculateScore fuzzyIndex (length enabledStrategies)
      | None \<Rightarrow> 35)"

definition fuzzyResult :: "real \<Rightarrow> FuseResult \<Rightarrow> SearchResult" where
  "fuzzyResult base r =
     (let fuseQuality = 1 - (case fuse_score r of None \<Rightarrow> 0 | Some s \<Rightarrow> s);
          adjustedScore = base * fuseQuality
      in \<lparr>bookmark = item r, score = adjustedScore, result_matchType = MT_fuzzy,
          matchedField = js ''fuzzy''\<rparr>)"

fun addFuzzy :: "real \<Rightarrow> FuseResult list \<Rightarrow> ResultMap \<Rightarrow> ResultMap" where
  "addFuzzy base [] results = results"
| "addFuzzy base (r # fuseResults) results =
     addFuzzy base fuseResults
       (if map_of results (b_id (item r)) = None
        then map_set (b_id (item r)) (fuzzyResult base r) results
        else results)"

definition fuzzyPhase :: "Libs \<Rightarrow> SearchState \<Rightarrow> SearchStrategy list \<Rightarrow> jsstring \<Rightarrow> nat
    \<Rightarrow> ResultMap \<Rightarrow> ResultMap" where
  "fuzzyPhase L S enabledStrategies effectiveQuery limitN results =
     (let hasFuzzyStrategy = list_ex (\<lambda>s. matchType s = Fuzzy) enabledStrategies
      in if fuseInstance S \<and> length results < limitN \<and> hasFuzzyStrategy \<and> effectiveQuery \<noteq> []
         then addFuzzy (fuzzyBaseScore enabledStrategies)
                (take (limitN - length results) (fuseSearch L (searchIndex S) effectiveQuery))
                results
         else results)"

subsection \<open>Ordering, frecency and the whole search\<close>

text \<open>
  \<^verbatim>\<open>Array.prototype.sort\<close> with a comparator is stable: \<open>x\<close>, which stood before all of \<open>ys\<close>,
  moves behind \<open>y\<close> only when the comparator puts \<open>y\<close> first (a positive result).
\<close>

fun js_insert :: "('a \<Rightarrow> 'a \<Rightarrow> real) \<Rightarrow> 'a \<Rightarrow> 'a list \<Rightarrow> 'a list" where
  "js_insert cmp x [] = [x]"
| "js_insert cmp x (y # ys) = (if cmp x y > 0 then y # js_insert cmp x ys else x # y # ys)"

fun js_sort :: "('a \<Rightarrow> 'a \<Rightarrow> real) \<Rightarrow> 'a list \<Rightarrow> 'a list" where
  "js_sort cmp [] = []"
| "js_sort cmp (x # xs) = js_insert cmp x (js_sort cmp xs)"

text \<open>The comparator of the category listing: pinned first, then newest update first.\<close>

definition compareCategoryListing :: "BookmarkWithDetails \<Rightarrow> BookmarkWithDetails \<Rightarrow> real" where
  "compareCategoryListing a b =
     (if isPinned a \<and> \<not> isPinned b then -1
      else if \<not> isPinned a \<and> isPinned b then 1
      else real_of_int (lastUpdated b - lastUpdated a))"

text \<open>The comparator of the ranked results: pinned first, then by score, descending.\<close>

definition compareResults :: "SearchResult \<Rightarrow> SearchResult \<Rightarrow> real" where
  "compareResults a b =
     (if isPinned (bookmark a) \<and> \<not> isPinned (bookmark b) then -1
      else if \<not> isPinned (bookmark a) \<and> isPinned (bookmark b) then 1
      else score b - score a)"

definition categoryResult :: "BookmarkWithDetails \<Rightarrow> SearchResult" where
  "categoryResult b =
     \<lparr>bookmark = b, score = 100, result_matchType = MT_category, matchedField = js ''category''\<rparr>"

text \<open>
  \<^verbatim>\<open>sortByFrecency\<close>. Each result is sent to the library with its own position
  (\<^verbatim>\<open>results.indexOf(r)\<close>; the results are distinct objects) and the answer is read back
  through \<^verbatim>\<open>results[item.originalIndex]\<close>, which is \<^verbatim>\<open>undefined\<close> (\<open>None\<close>) for an index
  outside the array. A throwing library leaves the order as it was.
\<close>

definition sortByFrecency :: "Libs \<Rightarrow> jsstring \<Rightarrow> SearchResult list \<Rightarrow> SearchResult option list" where
  "sortByFrecency L q results =
     (let normalizedQuery = trim (toLowerCase L q)
      in if normalizedQuery = [] \<or> length results = 0 then map Some results
         else case frecencySort L normalizedQuery
                     (map (\<lambda>(i, r). \<lparr>item_id = b_id (bookmark r), originalIndex = i\<rparr>)
                        (enumerate 0 results)) of
                None \<Rightarrow> map Some results
              | Some sortedBookmarks \<Rightarrow>
                  map (\<lambda>it. if originalIndex it < length results
                             then Some (results ! originalIndex it) else None)
                    sortedBookmarks)"

text \<open>Everything of \<^verbatim>\<open>search\<close> after the category prefix has been dealt with.\<close>

definition rankedSearch :: "Libs \<Rightarrow> SearchState \<Rightarrow> SearchType \<Rightarrow> nat \<Rightarrow> jsstring \<Rightarrow> jsstring
    \<Rightarrow> BookmarkWithDetails list \<Rightarrow> SearchResult option list" where
  "rankedSearch L S st limitN q effectiveQuery filteredIndex =
     (let enabledStrategies = getEnabledStrategies (activeStrategies S);
          results1 = strategyPhase L st effectiveQuery enabledStrategies filteredIndex [];
          results2 = fuzzyPhase L S enabledStrategies effectiveQuery limitN results1;
          sortedResults = take limitN (js_sort compareResults (map snd results2));
          pinnedResults = filter (\<lambda>r. isPinned (bookmark r)) sortedResults;
          normalResults = filter (\<lambda>r. \<not> isPinned (bookmark r)) sortedResults;
          frecencySortedNormal =
            sortByFrecency L (if effectiveQuery \<noteq> [] then effectiveQuery else q) normalResults
      in map Some pinnedResults @ frecencySortedNormal)"

text \<open>
  \<^verbatim>\<open>search\<close>, on the cache as \<^verbatim>\<open>refreshIndex\<close> left it. The write to the search history and
  the log lines do not touch the result and are left out. An entry \<open>None\<close> of the result is
  an \<^verbatim>\<open>undefined\<close> array element.
\<close>

definition search :: "Libs \<Rightarrow> SearchState \<Rightarrow> SearchOptions \<Rightarrow> SearchResult option list" where
  "search L S options =
     (let q = query options;
          st = (case searchType options of None \<Rightarrow> SearchDefault | Some t \<Rightarrow> t);
          limitN = (case limit options of None \<Rightarrow> 20 | Some n \<Rightarrow> n)
      in if q = [] \<or> length (trim q) = 0 then []
         else if isCategorySearch q then
           (let parsed = parseCategorySearch q;
                categoryFilter = cq_category parsed;
                effectiveQuery = cq_keyword parsed;
                filteredIndex =
                  filter (\<lambda>b. (case category b of
                                  None \<Rightarrow> None
                                | Some c \<Rightarrow> Some (toLowerCase L (cat_name c)))
                               = Some (toLowerCase L categoryFilter))
                    (searchIndex S)
            in if effectiveQuery = []
               then map Some
                      (map categoryResult
                         (take limitN (js_sort compareCategoryListing filteredIndex)))
               else rankedSearch L S st limitN q effectiveQuery filteredIndex)
         else rankedSearch L S st limitN q q (searchIndex S))"

subsection \<open>The ranking rule in the specification's words\<close>

text \<open>A strategy takes part in phase 1 unless it is a fuzzy strategy or a content strategy
  outside the full-text search.\<close>

definition applicable :: "SearchType \<Rightarrow> SearchStrategy \<Rightarrow> bool" where
  "applicable st s = (\<not> (field s = FieldContent \<and> st \<noteq> SearchFulltext) \<and> matchType s \<noteq> Fuzzy)"

text \<open>The field-text set of the bookmark contains a value that satisfies the match mode.\<close>

definition strategyMatches :: "Libs \<Rightarrow> jsstring \<Rightarrow> BookmarkWithDetails \<Rightarrow> SearchStrategy \<Rightarrow> bool" where
  "strategyMatches L q b s =
     (\<exists>text \<in> set (getFieldText b (field s)). checkMatch L q text (matchType s))"

text \<open>Position \<open>i\<close> is the first strategy, in priority order, that takes part and matches.\<close>

definition firstMatch :: "Libs \<Rightarrow> SearchType \<Rightarrow> jsstring \<Rightarrow> BookmarkWithDetails
    \<Rightarrow> SearchStrategy list \<Rightarrow> nat \<Rightarrow> bool" where
  "firstMatch L st q b es i =
     (i < length es \<and> applicable st (es ! i) \<and> strategyMatches L q b (es ! i) \<and>
      (\<forall>j < i. \<not> (applicable st (es ! j) \<and> strategyMatches L q b (es ! j))))"

text \<open>
  The same on the configured list, disabled strategies included: position \<open>j\<close> of the
  configuration holds the first strategy, in priority order, that is enabled, takes part
  and matches. Its index among the enabled strategies is the number of enabled strategies
  before it.
\<close>

definition firstEnabledMatch :: "Libs \<Rightarrow> SearchType \<Rightarrow> jsstring \<Rightarrow> BookmarkWithDetails
    \<Rightarrow> SearchStrategy list \<Rightarrow> nat \<Rightarrow> bool" where
  "firstEnabledMatch L st q b strats j =
     (j < length strats \<and> enabled (strats ! j) \<and> applicable st (strats ! j) \<and>
      strategyMatches L q b (strats ! j) \<and>
      (\<forall>j' < j. \<not> (enabled (strats ! j') \<and> applicable st (strats ! j') \<and>
                       strategyMatches L q b (strats ! j'))))"

definition enabledIndex :: "SearchStrategy list \<Rightarrow> nat \<Rightarrow> nat" where
  "enabledIndex strats j = length (filter enabled (take j strats))"

definition totalEnabled :: "SearchStrategy list \<Rightarrow> nat" where
  "totalEnabled strats = length (filter enabled strats)"

text \<open>The category listing in the specification's words: the bookmarks whose category name
  equals the token, case-insensitively; pinned first, then newest update first (a stable
  sort by that key); cut to the limit; each with score 100 and match type category.\<close>

definition inCategory :: "Libs \<Rightarrow> jsstring \<Rightarrow> BookmarkWithDetails \<Rightarrow> bool" where
  "inCategory L token b =
     (case category b of
        None \<Rightarrow> False
      | Some c \<Rightarrow> toLowerCase L (cat_name c) = toLowerCase L token)"

definition categoryListing_spec :: "Libs \<Rightarrow> BookmarkWithDetails list \<Rightarrow> jsstring \<Rightarrow> nat
    \<Rightarrow> SearchResult list" where
  "categoryListing_spec L idx token limitN =
     map (\<lambda>b. \<lparr>bookmark = b, score = 100, result_matchType = MT_category,
                matchedField = js ''category''\<rparr>)
       (take limitN
          (sort_key (\<lambda>b. (\<not> isPinned b, - lastUpdated b)) (filter (inCategory L token) idx)))"

text \<open>Every pinned entry stands before every entry that is not pinned; an \<^verbatim>\<open>undefined\<close>
  entry counts as not pinned.\<close>

definition isPinnedEntry :: "SearchResult option \<Rightarrow> bool" where
  "isPinnedEntry x = (case x of None \<Rightarrow> False | Some r \<Rightarrow> isPinned (bookmark r))"

definition pinnedFirst :: "SearchResult option list \<Rightarrow> bool" where
  "pinnedFirst rs =
     (\<forall>i j. i < length rs \<and> j < length rs \<and> isPinnedEntry (rs ! j) \<and> \<not> isPinnedEntry (rs ! i)
        \<longrightarrow> j < i)"

text \<open>The Fuse.js score of a hit as the engine reads it (\<^verbatim>\<open>result.score || 0\<close>): 0 is a
  perfect match, 1 the poorest.\<close>

definition hitScore :: "FuseResult \<Rightarrow> real" where
  "hitScore h = (case fuse_score h of None \<Rightarrow> 0 | Some s \<Rightarrow> s)"

section \<open>The garbled-content detector (garbled-content-detector.ts)\<close>

subsection \<open>Global regular-expression matches\<close>

text \<open>
  \<^verbatim>\<open>text.match(/.../g)\<close> returns the successive non-overlapping matches, scanning from the
  left: the pattern is tried at the current position; after a match the scan continues
  behind it, otherwise one character further. A pattern is given by the length of its
  match at the start of a string (\<open>None\<close>: no match there); no pattern of the detector
  matches the empty string.
\<close>

function countMatches :: "(jsstring \<Rightarrow> nat option) \<Rightarrow> jsstring \<Rightarrow> nat" where
  "countMatches m [] = 0"
| "countMatches m (c # cs) =
     (case m (c # cs) of
        None \<Rightarrow> countMatches m cs
      | Some 0 \<Rightarrow> countMatches m cs
      | Some (Suc k) \<Rightarrow> 1 + countMatches m (drop k cs))"
  by pat_completeness auto
termination
  by (relation "measure (\<lambda>(m, s). length s)") auto

text \<open>Without the \<^verbatim>\<open>u\<close> flag, \<^verbatim>\<open>i\<close> compares characters by their upper-case form, and a
  character outside ASCII never equals an ASCII one; so an ASCII pattern character matches
  its two ASCII cases only.\<close>

definition upperASCII :: "jschar \<Rightarrow> jschar" where
  "upperASCII c = (if 97 \<le> c \<and> c \<le> 122 then c - 32 else c)"

text \<open>A literal pattern under \<^verbatim>\<open>i\<close>, such as \<^verbatim>\<open>/&nbsp;/gi\<close>.\<close>

definition matchLiteralCI :: "jsstring \<Rightarrow> jsstring \<Rightarrow> nat option" where
  "matchLiteralCI lit s =
     (if length lit \<le> length s \<and> map upperASCII (take (length lit) s) = map upperASCII lit
      then Some (length lit) else None)"

definition isDigit :: "jschar \<Rightarrow> bool" where
  "isDigit c = (48 \<le> c \<and> c \<le> 57)"

definition isHexDigit :: "jschar \<Rightarrow> bool" where
  "isHexDigit c = (isDigit c \<or> (97 \<le> c \<and> c \<le> 102) \<or> (65 \<le> c \<and> c \<le> 70))"

text \<open>\<^verbatim>\<open>prefix\<close>, then one or more characters of a class, then a semicolon:
  \<^verbatim>\<open>/&#\d+;/g\<close> and \<^verbatim>\<open>/&#x[0-9a-f]+;/gi\<close>. The class does not contain the semicolon, so the
  greedy run has to be followed by it.\<close>

definition matchEntity :: "jsstring \<Rightarrow> (jschar \<Rightarrow> bool) \<Rightarrow> jsstring \<Rightarrow> nat option" where
  "matchEntity pre cls s =
     (if length pre \<le> length s \<and> map upperASCII (take (length pre) s) = map upperASCII pre then
        (let body = takeWhile cls (drop (length pre) s);
             after = dropWhile cls (drop (length pre) s)
         in if body \<noteq> [] \<and> (case after of [] \<Rightarrow> False | c # cs \<Rightarrow> c = 59)
            then Some (length pre + length body + 1) else None)
      else None)"

text \<open>A run of at least \<open>k\<close> characters of a class, \<^verbatim>\<open>/[...]{k,}/g\<close>; the quantifier is
  greedy, so a match is a whole maximal run.\<close>

definition matchRun :: "nat \<Rightarrow> (jschar \<Rightarrow> bool) \<Rightarrow> jsstring \<Rightarrow> nat option" where
  "matchRun k cls s =
     (let run = takeWhile cls s in if k \<le> length run then Some (length run) else None)"

text \<open>One character of a class, \<^verbatim>\<open>/[...]/g\<close>.\<close>

definition matchChar :: "(jschar \<Rightarrow> bool) \<Rightarrow> jsstring \<Rightarrow> nat option" where
  "matchChar cls s = (case s of [] \<Rightarrow> None | c # cs \<Rightarrow> if cls c then Some 1 else None)"

subsection \<open>The patterns\<close>

definition count_HTML_ENTITY_PATTERNS :: "jsstring \<Rightarrow> nat" where
  "count_HTML_ENTITY_PATTERNS t =
     countMatches (matchLiteralCI (js ''&nbsp;'')) t +
     countMatches (matchLiteralCI (js ''&amp;'')) t +
     countMatches (matchLiteralCI (js ''&lt;'')) t +
     countMatches (matchLiteralCI (js ''&gt;'')) t +
     countMatches (matchLiteralCI (js ''&quot;'')) t +
     countMatches (matchEntity (js ''&#'') isDigit) t +
     countMatches (matchEntity (js ''&#x'') isHexDigit) t"

text \<open>
  The character classes of \<^verbatim>\<open>MOJIBAKE_CHAR_PATTERNS\<close>. The second one is written with the
  letters U+00E6 to U+00FF and the flag \<^verbatim>\<open>i\<close>: it also matches their upper-case forms,
  U+00C6 to U+00DE without the multiplication sign, and U+0178.
\<close>

definition mojibake1 :: "jschar \<Rightarrow> bool" where
  "mojibake1 c = (c = 0x05A7 \<or> c = 0x03CD \<or> c = 0x0376)"

definition mojibake2 :: "jschar \<Rightarrow> bool" where
  "mojibake2 c =
     ((0x00E6 \<le> c \<and> c \<le> 0x00FF) \<or> (0x00C6 \<le> c \<and> c \<le> 0x00DE \<and> c \<noteq> 0x00D7) \<or> c = 0x0178)"

definition mojibake3 :: "jschar \<Rightarrow> bool" where
  "mojibake3 c = (0x00C0 \<le> c \<and> c \<le> 0x00DE)"

definition mojibake4 :: "jschar \<Rightarrow> bool" where
  "mojibake4 c = (0x0100 \<le> c \<and> c \<le> 0x017F)"

definition mojibake5 :: "jschar \<Rightarrow> bool" where
  "mojibake5 c = (0x0180 \<le> c \<and> c \<le> 0x024F)"

definition mojibake6 :: "jschar \<Rightarrow> bool" where
  "mojibake6 c = (0x0370 \<le> c \<and> c \<le> 0x03FF)"

definition mojibake7 :: "jschar \<Rightarrow> bool" where
  "mojibake7 c = (0x0400 \<le> c \<and> c \<le> 0x04FF)"

definition count_MOJIBAKE_CHAR_PATTERNS :: "jsstring \<Rightarrow> nat" where
  "count_MOJIBAKE_CHAR_PATTERNS t =
     countMatches (matchChar mojibake1) t +
     countMatches (matchRun 2 mojibake2) t +
     countMatches (matchRun 2 mojibake3) t +
     countMatches (matchRun 3 mojibake4) t +
     countMatches (matchRun 3 mojibake5) t +
     countMatches (matchRun 2 mojibake6) t +
     countMatches (matchRun 3 mojibake7) t"

definition REPLACEMENT_CHAR :: jschar where
  "REPLACEMENT_CHAR = 0xFFFD"

definition count_QUESTION_MARK_PATTERN :: "jsstring \<Rightarrow> nat" where
  "count_QUESTION_MARK_PATTERN t = countMatches (matchRun 3 (\<lambda>c. c = 63)) t"

definition isCJK :: "jschar \<Rightarrow> bool" where
  "isCJK c = ((0x4E00 \<le> c \<and> c \<le> 0x9FFF) \<or> (0x3400 \<le> c \<and> c \<le> 0x4DBF))"

subsection \<open>\<^verbatim>\<open>detectGarbledContent\<close>\<close>

text \<open>The result without its \<^verbatim>\<open>reason\<close> text, which only goes to log lines.\<close>

record GarbledDetectionResult =
  isGarbled :: bool
  isEmpty :: bool
  needsRefetch :: bool
  garbled_score :: nat

text \<open>
  The score that \<^verbatim>\<open>detectGarbledContent\<close> accumulates over its five signals, for the trimmed
  content. The two ratio tests \<^verbatim>\<open>replacementCount / contentLength > 0.01\<close> and
  \<^verbatim>\<open>cjkCount / contentLength < 0.05\<close> are written without division; for the counts and
  lengths a string can have, the doubles compare the same way.
\<close>

definition signalScore :: "jsstring \<Rightarrow> nat" where
  "signalScore trimmedContent =
     (let contentLength = length trimmedContent;
          replacementCount = length (filter (\<lambda>c. c = REPLACEMENT_CHAR) trimmedContent);
          score1 =
            (if replacementCount > 0 then
               (if 100 * replacementCount > contentLength then 50
                else if replacementCount > 3 then 30 else 0)
             else 0);
          htmlEntityCount = count_HTML_ENTITY_PATTERNS trimmedContent;
          score2 = score1 +
            (if htmlEntityCount > 5 then 40 else if htmlEntityCount > 2 then 20 else 0);
          mojibakeMatches = count_MOJIBAKE_CHAR_PATTERNS trimmedContent;
          score3 = score2 +
            (if mojibakeMatches > 10 then 40 else if mojibakeMatches > 3 then 25 else 0);
          questionMarks = count_QUESTION_MARK_PATTERN trimmedContent;
          score4 = score3 + (if questionMarks > 2 then 20 else 0);
          cjkCount = length (filter isCJK trimmedContent);
          score5 = score4 +
            (if cjkCount > 0 \<and> cjkCount < 20 \<and> 20 * cjkCount < contentLength \<and> score4 > 0
             then 15 else 0)
      in score5)"

text \<open>The first argument is \<^verbatim>\<open>String.prototype.toLowerCase\<close> of the runtime.\<close>

definition detectGarbledContent :: "(jsstring \<Rightarrow> jsstring) \<Rightarrow> jsstring \<Rightarrow> GarbledDetectionResult" where
  "detectGarbledContent lower content =
     (if content = [] \<or> length (trim content) = 0 then
        \<lparr>isGarbled = False, isEmpty = True, needsRefetch = True, garbled_score = 0\<rparr>
      else
        (let trimmedContent = trim content;
             contentLength = length trimmedContent
         in if contentLength < 50 then
              \<lparr>isGarbled = False, isEmpty = False, needsRefetch = True, garbled_score = 0\<rparr>
            else
              (let lowerContent = lower trimmedContent
               in if str_includes lowerContent (js ''this page uses frames'') \<or>
                     str_includes lowerContent (js ''your browser doesn't support'') \<or>
                     str_includes lowerContent (js ''your browser does not support frames'')
                  then
                    \<lparr>isGarbled = True, isEmpty = False, needsRefetch = True, garbled_score = 100\<rparr>
                  else
                    (let score = signalScore trimmedContent;
                         garbled = (score \<ge> 40)
                     in \<lparr>isGarbled = garbled, isEmpty = False, needsRefetch = garbled,
                         garbled_score = score\<rparr>))))"

text \<open>A Chinese ideograph, or the ideographic comma, the ideographic full stop or the
  full-width comma: the characters of an ordinary Chinese paragraph.\<close>

definition isHanText :: "jschar \<Rightarrow> bool" where
  "isHanText c = ((0x4E00 \<le> c \<and> c \<le> 0x9FFF) \<or> c = 0x3001 \<or> c = 0x3002 \<or> c = 0xFF0C)"

text \<open>A character that none of the first four signals looks at.\<close>

definition plainChar :: "jschar \<Rightarrow> bool" where
  "plainChar c =
     (c \<noteq> REPLACEMENT_CHAR \<and> c \<noteq> 38 \<and> c \<noteq> 63 \<and> \<not> mojibake1 c \<and> \<not> mojibake2 c \<and>
      \<not> mojibake3 c \<and> \<not> mojibake4 c \<and> \<not> mojibake5 c \<and> \<not> mojibake6 c \<and> \<not> mojibake7 c)"

section \<open>Storage and the enrichment queue (schema.ts, database.service.ts, summarization-queue.ts)\<close>

subsection \<open>The tables\<close>

text \<open>
  The database, with the two tables the modelled code reads and writes: \<^verbatim>\<open>bookmarks\<close> and
  \<^verbatim>\<open>ai_summaries\<close>, each as the list of its rows in row-id order, and the counter behind
  \<^verbatim>\<open>AUTOINCREMENT\<close> for the summaries. A bookmark row is the \<open>Bookmark\<close> that
  \<^verbatim>\<open>mapRowToBookmark\<close> makes of it; every insert of the program writes a number into
  \<^verbatim>\<open>retry_count\<close>. Writes to the tag tables and to the sync log do not touch these two
  tables and are left out. A statement fails only where a constraint of the schema rejects it.
\<close>

record DB =
  bookmarks :: "Bookmark list"
  ai_summaries :: "AISummary list"
  ai_summaries_seq :: nat

datatype error =
  NoAIService | FetchError jsstring | SummarizeError jsstring | UniqueConstraint jsstring

text \<open>\<^verbatim>\<open>String(error)\<close> in the catch block. A rejected statement is reported by the
  offscreen document as \<^verbatim>\<open>String(error)\<close> of the engine's error and wrapped in a new
  \<^verbatim>\<open>Error\<close> by \<^verbatim>\<open>sendToOffscreen\<close>, so its text carries the prefix twice.\<close>

definition errorString :: "error \<Rightarrow> jsstring" where
  "errorString e =
     (case e of
        NoAIService \<Rightarrow> js ''Error: No AI service configured''
      | FetchError m \<Rightarrow> m
      | SummarizeError m \<Rightarrow> m
      | UniqueConstraint col \<Rightarrow> js ''Error: Error: UNIQUE constraint failed: '' @ col)"

text \<open>\<^verbatim>\<open>x || null\<close> on an optional string, and the truthiness of an optional string or number.\<close>

definition orNull :: "jsstring option \<Rightarrow> jsstring option" where
  "orNull x = (case x of None \<Rightarrow> None | Some s \<Rightarrow> if s = [] then None else Some s)"

definition truthy :: "jsstring option \<Rightarrow> bool" where
  "truthy x = (orNull x \<noteq> None)"

definition truthyNumber :: "int option \<Rightarrow> bool" where
  "truthyNumber x = (case x of None \<Rightarrow> False | Some n \<Rightarrow> n \<noteq> 0)"

text \<open>\<^verbatim>\<open>UPDATE bookmarks SET ... WHERE id = ?\<close>: the assignment is applied to the rows with
  that id.\<close>

definition updateWhereId :: "nat \<Rightarrow> (Bookmark \<Rightarrow> Bookmark) \<Rightarrow> DB \<Rightarrow> DB" where
  "updateWhereId i f db = db\<lparr>bookmarks := map (\<lambda>r. if b_id r = i then f r else r) (bookmarks db)\<rparr>"

text \<open>\<^verbatim>\<open>BookmarkRepository.updateStatus\<close> with \<^verbatim>\<open>QUERIES.UPDATE_BOOKMARK_STATUS\<close>: it sets
  \<^verbatim>\<open>status\<close>, \<^verbatim>\<open>error_message\<close>, \<^verbatim>\<open>analyzed_at\<close> and \<^verbatim>\<open>last_updated\<close>.\<close>

definition updateStatus :: "nat \<Rightarrow> BookmarkStatus \<Rightarrow> jsstring option \<Rightarrow> int \<Rightarrow> DB \<Rightarrow> DB" where
  "updateStatus i st msg now db =
     (let analyzedAt' = (if st = Completed then Some now else None)
      in updateWhereId i
           (\<lambda>r. r\<lparr>status := st, errorMessage := orNull msg, analyzedAt := analyzedAt',
                  lastUpdated := now\<rparr>) db)"

text \<open>\<^verbatim>\<open>BookmarkRepository.updateContent\<close> with \<^verbatim>\<open>QUERIES.UPDATE_BOOKMARK_CONTENT\<close>.\<close>

definition updateContent :: "nat \<Rightarrow> jsstring \<Rightarrow> jsstring \<Rightarrow> int \<Rightarrow> DB \<Rightarrow> DB" where
  "updateContent i content hash now db =
     updateWhereId i
       (\<lambda>r. r\<lparr>pageContent := Some content, pageContentHash := Some hash,
              contentFetchedAt := Some now, lastUpdated := now\<rparr>) db"

text \<open>\<^verbatim>\<open>BookmarkRepository.resetAnalyzingToRetry\<close>:
  \<^verbatim>\<open>UPDATE bookmarks SET status = 'pending', retry_count = retry_count + 1, last_updated = ?
  WHERE status = 'analyzing'\<close>.\<close>

definition resetAnalyzingToRetry :: "int \<Rightarrow> DB \<Rightarrow> DB" where
  "resetAnalyzingToRetry now db =
     db\<lparr>bookmarks :=
          map (\<lambda>r. if status r = Analyzing
                    then r\<lparr>status := Pending, retryCount := retryCount r + 1, lastUpdated := now\<rparr>
                    else r)
            (bookmarks db)\<rparr>"

text \<open>\<^verbatim>\<open>BookmarkRepository.markFetchFailed\<close> and \<^verbatim>\<open>clearFetchFailed\<close>.\<close>

definition markFetchFailed :: "nat \<Rightarrow> jsstring \<Rightarrow> int \<Rightarrow> DB \<Rightarrow> DB" where
  "markFetchFailed i reason now db =
     updateWhereId i
       (\<lambda>r. r\<lparr>fetchFailedAt := Some now, fetchFailReason := Some reason, lastUpdated := now\<rparr>) db"

definition clearFetchFailed :: "nat \<Rightarrow> int \<Rightarrow> DB \<Rightarrow> DB" where
  "clearFetchFailed i now db =
     updateWhereId i
       (\<lambda>r. r\<lparr>fetchFailedAt := None, fetchFailReason := None, lastUpdated := now\<rparr>) db"

text \<open>\<^verbatim>\<open>QUERIES.GET_BOOKMARKS_PENDING\<close>: the rows in state pending, or failed with
  \<^verbatim>\<open>retry_count < 3\<close>, oldest creation first, cut to the limit. The statement orders by
  \<^verbatim>\<open>created_at\<close> alone, so the engine is free in the order of rows created at the same
  time; the model takes them in row order, and no property below depends on that choice.\<close>

definition isSelectable :: "Bookmark \<Rightarrow> bool" where
  "isSelectable r = (status r = Pending \<or> (status r = Failed \<and> retryCount r < 3))"

definition findPending :: "nat \<Rightarrow> DB \<Rightarrow> Bookmark list" where
  "findPending limitN db = take limitN (sort_key createdAt (filter isSelectable (bookmarks db)))"

definition countPending :: "DB \<Rightarrow> nat" where
  "countPending db = length (filter (\<lambda>r. status r = Pending) (bookmarks db))"

text \<open>
  \<^verbatim>\<open>AISummaryRepository.create\<close>: one \<^verbatim>\<open>INSERT INTO ai_summaries\<close>, with no look-up before
  it. The table declares \<^verbatim>\<open>bookmark_id INTEGER NOT NULL UNIQUE\<close> and the statement has no
  conflict clause, so the engine rejects the row when a row with that \<^verbatim>\<open>bookmark_id\<close>
  exists; the rejection reaches the caller as an exception. The new row gets the next
  id of the \<^verbatim>\<open>AUTOINCREMENT\<close> counter.
\<close>

definition insertSummary :: "AISummary \<Rightarrow> DB \<Rightarrow> error + (nat \<times> DB)" where
  "insertSummary s db =
     (if list_ex (\<lambda>r. bookmarkId r = bookmarkId s) (ai_summaries db)
      then Inl (UniqueConstraint (js ''ai_summaries.bookmark_id''))
      else (let newId = ai_summaries_seq db + 1
            in Inr (newId,
                    db\<lparr>ai_summaries := ai_summaries db @ [s\<lparr>s_id := newId\<rparr>],
                       ai_summaries_seq := newId\<rparr>)))"

definition AISummaryRepository_create :: "AISummary \<Rightarrow> DB \<Rightarrow> error + (nat \<times> DB)" where
  "AISummaryRepository_create s db = insertSummary s db"

text \<open>The import path (offscreen document): a summary is inserted only when
  \<^verbatim>\<open>SELECT id FROM ai_summaries WHERE bookmark_id = ?\<close> finds no row; errors are swallowed.\<close>

definition importSummary :: "AISummary \<Rightarrow> DB \<Rightarrow> DB" where
  "importSummary s db =
     (if filter (\<lambda>r. bookmarkId r = bookmarkId s) (ai_summaries db) = []
      then (case insertSummary s db of Inl e \<Rightarrow> db | Inr (i, db') \<Rightarrow> db')
      else db)"

subsection \<open>\<^verbatim>\<open>summarizeBookmark\<close>\<close>

record SummaryResult =
  summaryZh :: jsstring
  summaryOriginal_r :: "jsstring option"
  tagsZh :: "jsstring list option"
  tagsOriginal :: "jsstring list option"
  confidence :: "real option"
  language_r :: "jsstring option"

text \<open>
  The collaborators of the queue: the configured AI service (\<open>None\<close>: none configured) with
  its provider name, its \<^verbatim>\<open>summarize\<close> call and the content fetcher, each of which either
  throws (\<open>Inl\<close>) or returns, and the SHA-256 digest used as content hash.
\<close>

record QueueEnv =
  activeProvider :: "jsstring option"
  summarize :: "jsstring \<Rightarrow> jsstring \<Rightarrow> jsstring option \<Rightarrow> error + SummaryResult"
  fetchPageContentSmart :: "jsstring \<Rightarrow> error + jsstring option"
  hashContent :: "jsstring \<Rightarrow> jsstring"

text \<open>The \<^verbatim>\<open>catch\<close> block of \<^verbatim>\<open>summarizeBookmark\<close>: the new retry count is computed from the
  bookmark object and decides the status that \<^verbatim>\<open>updateStatus\<close> writes.\<close>

definition summarizeFailed :: "Bookmark \<Rightarrow> error \<Rightarrow> int \<Rightarrow> DB \<Rightarrow> bool \<times> DB" where
  "summarizeFailed b e now db =
     (let newRetryCount = retryCount b + 1
      in (False,
          updateStatus (b_id b) (if newRetryCount \<ge> 3 then Failed else Pending)
            (Some (errorString e)) now db))"

text \<open>\<^verbatim>\<open>summarizeBookmark\<close>; one clock value \<open>now\<close> stands for the \<^verbatim>\<open>Date.now()\<close> readings of
  the call. The result is the returned flag and the database afterwards.\<close>

definition summarizeBookmark :: "QueueEnv \<Rightarrow> int \<Rightarrow> Bookmark \<Rightarrow> DB \<Rightarrow> bool \<times> DB" where
  "summarizeBookmark env now b db =
     (let db1 = updateStatus (b_id b) Analyzing None now db
      in case activeProvider env of
           None \<Rightarrow> summarizeFailed b NoAIService now db1
         | Some provider \<Rightarrow>
             (case (if truthy (pageContent b) then Inr (pageContent b, db1)
                    else (case fetchPageContentSmart env (url b) of
                            Inl e \<Rightarrow> Inl e
                          | Inr fetched \<Rightarrow>
                              (case orNull fetched of
                                 None \<Rightarrow> Inr (fetched, db1)
                               | Some c \<Rightarrow>
                                   Inr (fetched,
                                        updateContent (b_id b) c (hashContent env c) now db1)))) of
                Inl e \<Rightarrow> summarizeFailed b e now db1
              | Inr (content, db2) \<Rightarrow>
                  (case summarize env (originalTitle b) (url b) (orNull content) of
                     Inl e \<Rightarrow> summarizeFailed b e now db2
                   | Inr result \<Rightarrow>
                       (case AISummaryRepository_create
                               \<lparr>s_id = 0, bookmarkId = b_id b, aiProvider = provider,
                                aiModel = None, summaryText = summaryZh result,
                                summaryOriginal = summaryOriginal_r result,
                                confidenceScore = confidence result,
                                language = language_r result, summary_createdAt = now\<rparr> db2 of
                          Inl e \<Rightarrow> summarizeFailed b e now db2
                        | Inr (i, db3) \<Rightarrow>
                            (True, updateStatus (b_id b) Completed None now db3)))))"

subsection \<open>The batch loop and start-up\<close>

text \<open>The queue's state: the database, the \<^verbatim>\<open>summarizing\<close> flag of the session storage and
  whether the alarm for the next batch is set.\<close>

record QueueState =
  db :: DB
  summarizing :: bool
  alarm :: bool

definition CHUNK_SIZE :: nat where
  "CHUNK_SIZE = 2"

fun summarizeAll :: "QueueEnv \<Rightarrow> int \<Rightarrow> Bookmark list \<Rightarrow> DB \<Rightarrow> DB" where
  "summarizeAll env now [] d = d"
| "summarizeAll env now (b # pending) d =
     summarizeAll env now pending (snd (summarizeBookmark env now b d))"

definition processNextBatch :: "QueueEnv \<Rightarrow> int \<Rightarrow> QueueState \<Rightarrow> QueueState" where
  "processNextBatch env now qs =
     (if \<not> summarizing qs then qs
      else (let pending = findPending CHUNK_SIZE (db qs)
            in if length pending = 0 then qs\<lparr>summarizing := False, alarm := False\<rparr>
               else (let d = summarizeAll env now pending (db qs);
                         remainingCount = countPending d
                     in if remainingCount > 0 then qs\<lparr>db := d, alarm := True\<rparr>
                        else qs\<lparr>db := d, summarizing := False\<rparr>)))"

text \<open>The part of \<^verbatim>\<open>initializeAsync\<close> (background script) that concerns the queue: resume
  the batch loop if the flag says it was running, then reset the bookmarks left in
  \<^verbatim>\<open>analyzing\<close>.\<close>

definition initializeAsync :: "QueueEnv \<Rightarrow> int \<Rightarrow> QueueState \<Rightarrow> QueueState" where
  "initializeAsync env now qs =
     (let qs1 = (if summarizing qs then processNextBatch env now qs else qs)
      in qs1\<lparr>db := resetAnalyzingToRetry now (db qs1)\<rparr>)"

subsection \<open>The repair sub-flow, \<^verbatim>\<open>refetchGarbledContent\<close>\<close>

text \<open>The decimal digits of a number, as \<^verbatim>\<open>${n}\<close> prints it in a template string.\<close>

function showNat :: "nat \<Rightarrow> jsstring" where
  "showNat n = (if n < 10 then [48 + n] else showNat (n div 10) @ [48 + n mod 10])"
  by pat_completeness auto
termination
  by (relation "measure id") auto

text \<open>The reason stored with a dead-link mark; its first six characters are the Chinese
  for "cannot get content".\<close>

definition failReason :: "nat \<Rightarrow> jsstring" where
  "failReason n =
     [0x65E0, 0x6CD5, 0x83B7, 0x53D6, 0x5185, 0x5BB9] @ js '' ('' @ showNat n @ js '' bytes)''"

record RefetchResult =
  totalScanned :: nat
  garbledFound :: nat
  emptyFound :: nat
  refetched :: nat
  failed :: nat

definition contentOf :: "Bookmark \<Rightarrow> jsstring" where
  "contentOf b = (case pageContent b of None \<Rightarrow> [] | Some c \<Rightarrow> c)"

text \<open>
  The scan: the bookmarks to fetch again, in scan order, with the numbers of empty and of
  garbled ones and of the skipped dead links. A bookmark with a dead-link mark is skipped;
  the others are listed when their content is missing or blank, or classified as garbled.
  The scan reads the rows through \<^verbatim>\<open>getAllForIndex\<close>, one entry per bookmark row.
\<close>

fun scanForRefetch :: "(jsstring \<Rightarrow> jsstring) \<Rightarrow> Bookmark list
    \<Rightarrow> Bookmark list \<times> nat \<times> nat \<times> nat" where
  "scanForRefetch lower [] = ([], 0, 0, 0)"
| "scanForRefetch lower (b # rest) =
     (case scanForRefetch lower rest of
        (needsRefetchList, emptyN, garbledN, skippedDead) \<Rightarrow>
          if truthyNumber (fetchFailedAt b) then
            (needsRefetchList, emptyN, garbledN, skippedDead + 1)
          else if contentOf b = [] \<or> length (trim (contentOf b)) = 0 then
            (b # needsRefetchList, emptyN + 1, garbledN, skippedDead)
          else if isGarbled (detectGarbledContent lower (contentOf b)) then
            (b # needsRefetchList, emptyN, garbledN + 1, skippedDead)
          else (needsRefetchList, emptyN, garbledN, skippedDead))"

text \<open>
  One turn of the loop over the list, for the bookmark \<open>b\<close> as the scan read it. A throwing
  fetch is caught and counted. Content longer than 50 characters is rejected when it is
  classified as garbled, or when the old content is more than twice as long; otherwise it
  is stored. No content, or content of at most 50 characters, marks the bookmark as a dead
  link.
\<close>

definition refetchOne :: "QueueEnv \<Rightarrow> (jsstring \<Rightarrow> jsstring) \<Rightarrow> int \<Rightarrow> Bookmark
    \<Rightarrow> DB \<times> RefetchResult \<Rightarrow> DB \<times> RefetchResult" where
  "refetchOne env lower now b state =
     (case state of
        (d, res) \<Rightarrow>
          (case fetchPageContentSmart env (url b) of
             Inl e \<Rightarrow> (d, res\<lparr>failed := failed res + 1\<rparr>)
           | Inr newContent \<Rightarrow>
               (let new = (case newContent of None \<Rightarrow> [] | Some c \<Rightarrow> c)
                in if truthy newContent \<and> length new > 50 then
                     (if isGarbled (detectGarbledContent lower new) then
                        (d, res\<lparr>failed := failed res + 1\<rparr>)
                      else if truthy (pageContent b) \<and> length (contentOf b) > length new * 2 then
                        (d, res\<lparr>failed := failed res + 1\<rparr>)
                      else
                        (updateContent (b_id b) new (hashContent env new) now d,
                         res\<lparr>refetched := refetched res + 1\<rparr>))
                   else
                     (markFetchFailed (b_id b) (failReason (length new)) now d,
                      res\<lparr>failed := failed res + 1\<rparr>))))"

definition refetchGarbledContent :: "QueueEnv \<Rightarrow> (jsstring \<Rightarrow> jsstring) \<Rightarrow> int \<Rightarrow> DB
    \<Rightarrow> DB \<times> RefetchResult" where
  "refetchGarbledContent env lower now d =
     (case scanForRefetch lower (bookmarks d) of
        (needsRefetchList, emptyN, garbledN, skippedDead) \<Rightarrow>
          fold (refetchOne env lower now) needsRefetchList
            (d, \<lparr>totalScanned = length (bookmarks d), garbledFound = garbledN,
                 emptyFound = emptyN, refetched = 0, failed = 0\<rparr>))"


subsection \<open>Operations on the database\<close>

text \<open>The rows whose id is not in \<open>I\<close> are the same in \<open>d'\<close> as in \<open>d\<close>, and every row keeps
  its id and its retry count.\<close>

definition rowsKept :: "nat set \<Rightarrow> DB \<Rightarrow> DB \<Rightarrow> bool" where
  "rowsKept I d d' =
     (length (bookmarks d') = length (bookmarks d) \<and>
      (\<forall>k < length (bookmarks d).
         b_id (bookmarks d' ! k) = b_id (bookmarks d ! k) \<and>
         retryCount (bookmarks d' ! k) = retryCount (bookmarks d ! k) \<and>
         (b_id (bookmarks d ! k) \<notin> I \<longrightarrow> bookmarks d' ! k = bookmarks d ! k)))"

text \<open>The writes of the program to the two tables, as operations on the database; a
  rejected insert leaves the database as it was.\<close>

datatype DbOp =
  OpCreateSummary AISummary
| OpImportSummary AISummary
| OpSummarize QueueEnv int Bookmark
| OpUpdateStatus nat BookmarkStatus "jsstring option" int
| OpUpdateContent nat jsstring jsstring int
| OpResetAnalyzing int
| OpMarkFetchFailed nat jsstring int
| OpClearFetchFailed nat int

fun applyOp :: "DbOp \<Rightarrow> DB \<Rightarrow> DB" where
  "applyOp (OpCreateSummary s) d =
     (case AISummaryRepository_create s d of Inl e \<Rightarrow> d | Inr (i, d') \<Rightarrow> d')"
| "applyOp (OpImportSummary s) d = importSummary s d"
| "applyOp (OpSummarize env now b) d = snd (summarizeBookmark env now b d)"
| "applyOp (OpUpdateStatus i st msg now) d = updateStatus i st msg now d"
| "applyOp (OpUpdateContent i c h now) d = updateContent i c h now d"
| "applyOp (OpResetAnalyzing now) d = resetAnalyzingToRetry now d"
| "applyOp (OpMarkFetchFailed i reason now) d = markFetchFailed i reason now d"
| "applyOp (OpClearFetchFailed i now) d = clearFetchFailed i now d"

text \<open>At most one summary row per bookmark.\<close>

definition oneSummaryPerBookmark :: "DB \<Rightarrow> bool" where
  "oneSummaryPerBookmark d = distinct (map bookmarkId (ai_summaries d))"

section \<open>Example data\<close>

text \<open>A lower-casing function that agrees with the runtime on ASCII, a pinyin matcher that
  never matches, an empty fuzzy index and a frecency library that keeps the order.\<close>

definition lowerASCII :: "jsstring \<Rightarrow> jsstring" where
  "lowerASCII s = map (\<lambda>c. if 65 \<le> c \<and> c \<le> 90 then c + 32 else c) s"

definition exampleLibs :: Libs where
  "exampleLibs =
     \<lparr>toLowerCase = lowerASCII, pinyinMatch = (\<lambda>text q. Some False),
      fuseSearch = (\<lambda>idx q. []), frecencySort = (\<lambda>q items. Some items)\<rparr>"

definition exampleBookmark :: "nat \<Rightarrow> jsstring \<Rightarrow> jsstring \<Rightarrow> bool \<Rightarrow> int \<Rightarrow> Category option
    \<Rightarrow> BookmarkWithDetails" where
  "exampleBookmark i u t pinned updated cat =
     \<lparr>b_id = i, url = u, originalTitle = t, pageContent = None, pageContentHash = None,
      userNotes = None, status = Completed, errorMessage = None, retryCount = 0,
      fetchFailedAt = None, fetchFailReason = None, isPinned = pinned, createdAt = 0,
      analyzedAt = None, contentFetchedAt = None, lastUpdated = updated,
      summary = None, tags = Some [], category = cat\<rparr>"

text \<open>The scenario of the specification: A is titled "React Guide", B is titled
  "react tutorial" and pinned, C has "react" in its URL only; the enabled strategies are
  the case-insensitive title match, then the case-insensitive URL match.\<close>

definition bookmarkA :: BookmarkWithDetails where
  "bookmarkA = exampleBookmark 1 (js ''https://a.example/guide'') (js ''React Guide'') False 10 None"

definition bookmarkB :: BookmarkWithDetails where
  "bookmarkB = exampleBookmark 2 (js ''https://b.example/'') (js ''react tutorial'') True 20 None"

definition bookmarkC :: BookmarkWithDetails where
  "bookmarkC = exampleBookmark 3 (js ''https://c.example/react'') (js ''Unrelated'') False 30 None"

definition exampleStrategies :: "SearchStrategy list" where
  "exampleStrategies =
     [\<lparr>strategy_id = js ''title_exact'', field = FieldTitle, matchType = Exact, enabled = True,
       label = js ''Title (Case-insensitive)'', labelZh = []\<rparr>,
      \<lparr>strategy_id = js ''url_exact'', field = FieldUrl, matchType = Exact, enabled = True,
       label = js ''URL (Case-insensitive)'', labelZh = []\<rparr>,
      \<lparr>strategy_id = js ''title_fuzzy'', field = FieldTitle, matchType = Fuzzy, enabled = True,
       label = js ''Title (Fuzzy)'', labelZh = []\<rparr>]"

definition exampleState :: SearchState where
  "exampleState =
     \<lparr>searchIndex = [bookmarkA, bookmarkB, bookmarkC], fuseInstance = True,
      activeStrategies = exampleStrategies\<rparr>"

text \<open>Two bookmarks of the category "dev".\<close>

definition devOld :: BookmarkWithDetails where
  "devOld = exampleBookmark 4 (js ''https://old.example/'') (js ''Old'') False 100
              (Some \<lparr>cat_name = js ''Dev'', cat_namePinyin = None\<rparr>)"

definition devNew :: BookmarkWithDetails where
  "devNew = exampleBookmark 5 (js ''https://new.example/'') (js ''New'') False 200
              (Some \<lparr>cat_name = js ''dev'', cat_namePinyin = None\<rparr>)"

definition devState :: SearchState where
  "devState =
     \<lparr>searchIndex = [bookmarkA, devOld, devNew], fuseInstance = True,
      activeStrategies = exampleStrategies\<rparr>"

text \<open>A fuzzy index that answers every query with bookmark C at Fuse.js score 1/4.\<close>

definition exampleFuzzyLibs :: Libs where
  "exampleFuzzyLibs =
     \<lparr>toLowerCase = lowerASCII, pinyinMatch = (\<lambda>text q. Some False),
      fuseSearch = (\<lambda>idx q. [\<lparr>item = bookmarkC, fuse_score = Some (1 / 4)\<rparr>]),
      frecencySort = (\<lambda>q items. Some items)\<rparr>"

text \<open>A pending bookmark that has failed once, alone in the database, and collaborators
  without a configured AI service, or with a fetcher that returns garbled content.\<close>

definition failedOnce :: Bookmark where
  "failedOnce =
     \<lparr>b_id = 7, url = js ''https://x.example/'', originalTitle = js ''X'', pageContent = None,
      pageContentHash = None, userNotes = None, status = Pending, errorMessage = None,
      retryCount = 1, fetchFailedAt = None, fetchFailReason = None, isPinned = False,
      createdAt = 100, analyzedAt = None, contentFetchedAt = None, lastUpdated = 100\<rparr>"

definition failedOnceDB :: DB where
  "failedOnceDB = \<lparr>bookmarks = [failedOnce], ai_summaries = [], ai_summaries_seq = 0\<rparr>"

definition noServiceEnv :: QueueEnv where
  "noServiceEnv =
     \<lparr>activeProvider = None,
      summarize = (\<lambda>title u content. Inl (SummarizeError (js ''Error: unreachable''))),
      fetchPageContentSmart = (\<lambda>u. Inr None),
      hashContent = (\<lambda>c. js ''hash'')\<rparr>"


text \<open>A bookmark that was being analyzed when the process died, in a queue that was running.\<close>

definition stuck :: Bookmark where
  "stuck = failedOnce\<lparr>b_id := 8, status := Analyzing, retryCount := 0, createdAt := 50\<rparr>"

definition stuckQueue :: QueueState where
  "stuckQueue =
     \<lparr>db = \<lparr>bookmarks = [stuck, failedOnce], ai_summaries = [], ai_summaries_seq = 0\<rparr>,
      summarizing = True, alarm = False\<rparr>"

text \<open>A summary for that bookmark.\<close>

definition exampleSummary :: AISummary where
  "exampleSummary =
     \<lparr>s_id = 0, bookmarkId = 7, aiProvider = js ''deepseek'', aiModel = None,
      summaryText = js ''A page'', summaryOriginal = None, confidenceScore = None,
      language = None, summary_createdAt = 5000\<rparr>"




text \<open>A configuration of four strategies of which the second is disabled, and a bookmark
  with "react" in its title and in its URL: the disabled title strategy would match it.\<close>

definition mixedStrategies :: "SearchStrategy list" where
  "mixedStrategies =
     [\<lparr>strategy_id = js ''notes_exact'', field = FieldNotes, matchType = Exact, enabled = True,
       label = js ''Notes'', labelZh = []\<rparr>,
      \<lparr>strategy_id = js ''title_exact'', field = FieldTitle, matchType = Exact, enabled = False,
       label = js ''Title (Case-insensitive)'', labelZh = []\<rparr>,
      \<lparr>strategy_id = js ''url_exact'', field = FieldUrl, matchType = Exact, enabled = True,
       label = js ''URL (Case-insensitive)'', labelZh = []\<rparr>,
      \<lparr>strategy_id = js ''title_fuzzy'', field = FieldTitle, matchType = Fuzzy, enabled = True,
       label = js ''Title (Fuzzy)'', labelZh = []\<rparr>]"

definition bookmarkR :: BookmarkWithDetails where
  "bookmarkR = exampleBookmark 9 (js ''https://react.example/'') (js ''React'') False 40 None"

section \<open>Properties of the string primitives\<close>

lemma dropWhile_all: "\<forall>x\<in>set xs. P x \<Longrightarrow> dropWhile P (xs @ ys) = dropWhile P ys"
  by (induction xs) auto

lemma trim_core:
  assumes "\<forall>x\<in>set pre. isWhiteSpace x" and "\<forall>x\<in>set post. isWhiteSpace x"
    and "s \<noteq> []" and "\<not> isWhiteSpace (hd s)" and "\<not> isWhiteSpace (last s)"
  shows "trim (pre @ s @ post) = s"
proof -
  from assms(3,4) have front: "dropWhile isWhiteSpace s = s"
    by (cases s) auto
  have "dropWhile isWhiteSpace (pre @ s @ post) = s @ post"
    using assms(1,3,4) by (cases s) (auto simp: dropWhile_all)
  moreover have "dropWhile isWhiteSpace (rev (s @ post)) = rev s"
  proof -
    have "rev (s @ post) = rev post @ rev s" by simp
    moreover have "\<forall>x\<in>set (rev post). isWhiteSpace x" using assms(2) by simp
    ultimately have "dropWhile isWhiteSpace (rev (s @ post)) = dropWhile isWhiteSpace (rev s)"
      by (simp only: dropWhile_all)
    moreover have "dropWhile isWhiteSpace (rev s) = rev s"
      using assms(3,5) by (cases "rev s") (auto simp: last_rev [symmetric] hd_rev)
    ultimately show ?thesis by simp
  qed
  ultimately show ?thesis by (simp add: trim_def)
qed

lemma trim_Nil: "trim [] = []"
  by (simp add: trim_def)

lemma trim_id: "s \<noteq> [] \<Longrightarrow> \<not> isWhiteSpace (hd s) \<Longrightarrow> \<not> isWhiteSpace (last s) \<Longrightarrow> trim s = s"
  using trim_core [of "[]" "[]" s] by simp

section \<open>Properties of the strategy configuration\<close>

lemma default_ids_distinct: "distinct (map strategy_id DEFAULT_SEARCH_STRATEGIES)"
  by (simp add: DEFAULT_SEARCH_STRATEGIES_def js_def)

lemma fold_upd_lookup:
  "distinct (map strategy_id ds) \<Longrightarrow>
   fold (\<lambda>s m. m(strategy_id s \<mapsto> s)) ds m0 i =
     (case find (\<lambda>d. strategy_id d = i) ds of Some d \<Rightarrow> Some d | None \<Rightarrow> m0 i)"
proof (induction ds arbitrary: m0)
  case Nil
  then show ?case by simp
next
  case (Cons d ds)
  from Cons.prems have "strategy_id d \<notin> strategy_id ` set ds" by simp
  then have "\<forall>x\<in>set ds. strategy_id x \<noteq> strategy_id d" by (metis image_eqI)
  then have "find (\<lambda>x. strategy_id x = strategy_id d) ds = None"
    by (simp add: find_None_iff)
  with Cons show ?case by (auto split: option.splits)
qed

lemma filter_id_find:
  "distinct (map strategy_id ds) \<Longrightarrow>
   filter (\<lambda>d. strategy_id d = i) ds =
     (case find (\<lambda>d. strategy_id d = i) ds of Some d \<Rightarrow> [d] | None \<Rightarrow> [])"
proof (induction ds)
  case Nil
  then show ?case by simp
next
  case (Cons d ds)
  show ?case
  proof (cases "strategy_id d = i")
    case True
    from Cons.prems have "strategy_id d \<notin> strategy_id ` set ds" by simp
    then have "\<forall>x\<in>set ds. strategy_id x \<noteq> strategy_id d" by (metis image_eqI)
    with True have "filter (\<lambda>x. strategy_id x = i) ds = []"
      by (simp add: filter_empty_conv)
    with True show ?thesis by simp
  next
    case False
    with Cons show ?thesis by simp
  qed
qed

lemma defaultMap_find:
  "defaultMap i = find (\<lambda>d. strategy_id d = i) DEFAULT_SEARCH_STRATEGIES"
  unfolding defaultMap_def
  by (simp add: fold_upd_lookup [OF default_ids_distinct] split: option.splits)

lemma emit_saved_defaultMap:
  "emit_saved s = (case defaultMap (saved_id s) of
       Some d \<Rightarrow> [d\<lparr>enabled := saved_enabled s\<rparr>] | None \<Rightarrow> [])"
  by (simp add: emit_saved_def defaultMap_find filter_id_find [OF default_ids_distinct]
      split: option.splits)

lemma load_saved_eq:
  "load_saved ss result used =
     (result @ concat (map emit_saved ss),
      used \<union> {i \<in> saved_id ` set ss. defaultMap i \<noteq> None})"
proof (induction ss arbitrary: result used)
  case Nil
  then show ?case by simp
next
  case (Cons s ss)
  show ?case
    by (cases "defaultMap (saved_id s)") (auto simp: Cons.IH emit_saved_defaultMap)
qed

lemma add_missing_eq:
  "add_missing ds result used = result @ filter (\<lambda>d. strategy_id d \<notin> used) ds"
  by (induction ds arbitrary: result) auto

lemma defaultMap_member:
  "d \<in> set DEFAULT_SEARCH_STRATEGIES \<Longrightarrow> defaultMap (strategy_id d) \<noteq> None"
  by (auto simp: defaultMap_find find_None_iff)

text \<open>
  Claim C5. For every saved override list, \<^verbatim>\<open>loadSearchStrategies\<close> emits, in saved order, the
  default definition with the saved enabled flag for each saved id that is a default id
  (other ids are ignored), then appends, in default order, every default strategy whose id
  is absent from the saved list; with no saved list, or an empty one, it returns the
  defaults in their order. That is the merge rule \<open>loadStrategies_spec\<close>.
\<close>

theorem loadSearchStrategies_merge:
  "loadSearchStrategies savedOrder = loadStrategies_spec (strategies savedOrder)"
proof (cases "strategies savedOrder")
  case None
  then show ?thesis by (simp add: loadSearchStrategies_def loadStrategies_spec_def)
next
  case (Some ss)
  have "filter (\<lambda>d. strategy_id d \<notin> {i \<in> saved_id ` set ss. defaultMap i \<noteq> None})
          DEFAULT_SEARCH_STRATEGIES =
        filter (\<lambda>d. strategy_id d \<notin> saved_id ` set ss) DEFAULT_SEARCH_STRATEGIES"
    by (rule filter_cong) (auto dest: defaultMap_member)
  with Some show ?thesis
    by (simp add: loadSearchStrategies_def loadStrategies_spec_def load_saved_eq add_missing_eq)
qed


theorem loadSearchStrategies_merge_witness:
  "loadStrategies_spec (Some [\<lparr>saved_id = js ''title_exact'', saved_enabled = False\<rparr>,
                              \<lparr>saved_id = js ''no_such_id'', saved_enabled = True\<rparr>]) =
   loadSearchStrategies
     \<lparr>strategies = Some [\<lparr>saved_id = js ''title_exact'', saved_enabled = False\<rparr>,
                          \<lparr>saved_id = js ''no_such_id'', saved_enabled = True\<rparr>]\<rparr>
   \<and> map (\<lambda>s. (strategy_id s, enabled s))
        (take 3 (loadStrategies_spec
           (Some [\<lparr>saved_id = js ''title_exact'', saved_enabled = False\<rparr>,
                  \<lparr>saved_id = js ''no_such_id'', saved_enabled = True\<rparr>]))) =
       [(js ''title_exact'', False), (js ''url_exact_case'', True), (js ''url_exact'', True)]"
  using loadSearchStrategies_merge
    [of "\<lparr>strategies = Some [\<lparr>saved_id = js ''title_exact'', saved_enabled = False\<rparr>,
                              \<lparr>saved_id = js ''no_such_id'', saved_enabled = True\<rparr>]\<rparr>"]
  by (simp add: loadStrategies_spec_def emit_saved_def DEFAULT_SEARCH_STRATEGIES_def js_def)

section \<open>Properties of the search engine\<close>

subsection \<open>Phase 1\<close>

lemma findIndex_Some_iff:
  "findIndex P xs = Some k \<longleftrightarrow> k < length xs \<and> P (xs ! k) \<and> (\<forall>j<k. \<not> P (xs ! j))"
proof (induction xs arbitrary: k)
  case Nil
  then show ?case by simp
next
  case (Cons x xs)
  show ?case
  proof (cases "P x")
    case True
    then show ?thesis by (cases k) auto
  next
    case False
    show ?thesis
    proof (cases k)
      case 0
      with False show ?thesis by (auto split: option.splits)
    next
      case (Suc k')
      have "(\<forall>j<Suc k'. \<not> P ((x # xs) ! j)) \<longleftrightarrow> (\<forall>j<k'. \<not> P (xs ! j))"
        using False by (auto simp: less_Suc_eq_0_disj)
      with False Suc Cons.IH [of k'] show ?thesis
        by (auto split: option.splits)
    qed
  qed
qed

lemma findIndex_None_iff: "findIndex P xs = None \<longleftrightarrow> (\<forall>x\<in>set xs. \<not> P x)"
  by (induction xs) (auto split: option.splits)

lemma bestMatch_findIndex:
  "bestMatch L st q b n i0 strats =
     (case findIndex (\<lambda>s. applicable st s \<and> strategyMatches L q b s) strats of
        None \<Rightarrow> None
      | Some k \<Rightarrow> Some (calculateScore (i0 + k) n,
                        fieldToMatchType (field (strats ! k)) (matchType (strats ! k)),
                        fieldName (field (strats ! k))))"
proof (induction strats arbitrary: i0)
  case Nil
  then show ?case by simp
next
  case (Cons s strats)
  show ?case
    by (simp add: Cons.IH applicable_def strategyMatches_def list_ex_iff split: option.splits)
qed

lemma map_of_map_set: "map_of (map_set k v m) = (map_of m)(k \<mapsto> v)"
  by (induction m) (auto simp: fun_eq_iff)

lemma set_fst_map_set: "set (map fst (map_set k v m)) = insert k (set (map fst m))"
proof (induction m)
  case Nil
  then show ?case by simp
next
  case (Cons p m)
  obtain k' v' where p: "p = (k', v')" by (cases p)
  show ?case
  proof (cases "k' = k")
    case True
    then show ?thesis by (simp add: p)
  next
    case False
    have "set (map fst (map_set k v (p # m))) = insert k' (set (map fst (map_set k v m)))"
      using False by (simp add: p)
    also have "\<dots> = insert k' (insert k (set (map fst m)))"
      by (simp only: Cons.IH)
    finally show ?thesis by (simp add: p insert_commute)
  qed
qed

lemma distinct_map_set: "distinct (map fst m) \<Longrightarrow> distinct (map fst (map_set k v m))"
proof (induction m)
  case Nil
  then show ?case by simp
next
  case (Cons p m)
  obtain k' v' where p: "p = (k', v')" by (cases p)
  from Cons set_fst_map_set [of k v m] show ?case
    by (auto simp: p)
qed

lemma strategyPhase_distinct:
  "distinct (map fst results) \<Longrightarrow> distinct (map fst (strategyPhase L st q es bs results))"
  by (induction bs arbitrary: results) (auto simp: distinct_map_set split: option.splits)

lemma strategyPhase_other:
  "k \<notin> b_id ` set bs \<Longrightarrow> map_of (strategyPhase L st q es bs results) k = map_of results k"
  by (induction bs arbitrary: results) (auto simp: map_of_map_set split: option.splits)

lemma strategyPhase_lookup:
  "distinct (map b_id bs) \<Longrightarrow> b \<in> set bs \<Longrightarrow>
   map_of (strategyPhase L st q es bs results) (b_id b) =
     (case bestMatch L st q b (length es) 0 es of
        Some (sc, mt, fld) \<Rightarrow>
          Some \<lparr>bookmark = b, score = sc, result_matchType = mt, matchedField = fld\<rparr>
      | None \<Rightarrow> map_of results (b_id b))"
proof (induction bs arbitrary: results)
  case Nil
  then show ?case by simp
next
  case (Cons a bs)
  show ?case
  proof (cases "b = a")
    case True
    with Cons.prems have "b_id b \<notin> b_id ` set bs" by auto
    with True show ?thesis
      by (auto simp: strategyPhase_other map_of_map_set split: option.splits)
  next
    case False
    with Cons.prems have in_bs: "b \<in> set bs" "distinct (map b_id bs)" by auto
    with Cons.prems have "b_id a \<noteq> b_id b" by auto
    then have "map_of (case bestMatch L st q a (length es) 0 es of
                  Some (sc, mt, fld) \<Rightarrow>
                    map_set (b_id a)
                      \<lparr>bookmark = a, score = sc, result_matchType = mt, matchedField = fld\<rparr>
                      results
                | None \<Rightarrow> results) (b_id b) = map_of results (b_id b)"
      by (simp add: map_of_map_set split: option.splits)
    with in_bs show ?thesis by (simp add: Cons.IH split: option.splits)
  qed
qed

text \<open>Phase 1 on a list of strategies, whatever it is: the first strategy of the list that
  takes part and matches decides.\<close>

lemma strategyPhase_first_match_list:
  assumes "distinct (map b_id filteredIndex)" and "b \<in> set filteredIndex"
  shows "(firstMatch L st q b es i \<longrightarrow>
            map_of (strategyPhase L st q es filteredIndex []) (b_id b) =
              Some \<lparr>bookmark = b, score = calculateScore i (length es),
                    result_matchType = fieldToMatchType (field (es ! i)) (matchType (es ! i)),
                    matchedField = fieldName (field (es ! i))\<rparr>)
       \<and> ((\<forall>j. \<not> firstMatch L st q b es j) \<longrightarrow>
            map_of (strategyPhase L st q es filteredIndex []) (b_id b) = None)"
proof (intro conjI impI)
  let ?P = "\<lambda>s. applicable st s \<and> strategyMatches L q b s"
  {
    assume "firstMatch L st q b es i"
    then have "findIndex ?P es = Some i"
      by (simp add: firstMatch_def findIndex_Some_iff)
    then show "map_of (strategyPhase L st q es filteredIndex []) (b_id b) =
              Some \<lparr>bookmark = b, score = calculateScore i (length es),
                    result_matchType = fieldToMatchType (field (es ! i)) (matchType (es ! i)),
                    matchedField = fieldName (field (es ! i))\<rparr>"
      using assms(1,2) by (simp add: strategyPhase_lookup bestMatch_findIndex)
  }
  {
    assume none: "\<forall>j. \<not> firstMatch L st q b es j"
    have "findIndex ?P es = None"
    proof (cases "findIndex ?P es")
      case None
      then show ?thesis .
    next
      case (Some k)
      then have "firstMatch L st q b es k"
        by (simp add: firstMatch_def findIndex_Some_iff)
      with none show ?thesis by blast
    qed
    then show "map_of (strategyPhase L st q es filteredIndex []) (b_id b) = None"
      using assms(1,2) by (simp add: strategyPhase_lookup bestMatch_findIndex)
  }
qed


lemma findIndex_filter:
  "findIndex P (filter Q xs) =
     (case findIndex (\<lambda>x. Q x \<and> P x) xs of
        None \<Rightarrow> None
      | Some j \<Rightarrow> Some (length (filter Q (take j xs))))"
  by (induction xs) (auto split: option.splits)

lemma findIndex_filter_nth:
  "findIndex (\<lambda>x. Q x \<and> P x) xs = Some j \<Longrightarrow>
   filter Q xs ! length (filter Q (take j xs)) = xs ! j"
proof (induction xs arbitrary: j)
  case Nil
  then show ?case by simp
next
  case (Cons x xs)
  show ?case
  proof (cases "Q x \<and> P x")
    case True
    with Cons.prems show ?thesis by auto
  next
    case False
    with Cons.prems obtain j' where j': "findIndex (\<lambda>x. Q x \<and> P x) xs = Some j'" "j = Suc j'"
      by (auto split: option.splits)
    from Cons.IH [OF j'(1)] j'(2) show ?thesis by simp
  qed
qed

text \<open>
  Claim C1. For every bookmark of the candidate set (row ids are distinct), every query and
  every configured list of strategies, phase 1 of the search, which runs on the enabled
  strategies of the list, gives the bookmark the result of the first strategy, in priority
  order, that is enabled, is not skipped (fuzzy mode, or the content field outside the
  full-text search) and whose field-text set contains a value satisfying its match mode.
  The score is \<open>calculateScore\<close> of that strategy's index among the enabled strategies and
  of the number of enabled strategies; a disabled strategy neither scores nor counts. A
  bookmark that no such strategy matches gets no result, and no bookmark gets more than
  one.
\<close>

theorem strategyPhase_first_match:
  assumes "distinct (map b_id filteredIndex)" and "b \<in> set filteredIndex"
  shows "(firstEnabledMatch L st q b strats j \<longrightarrow>
            map_of (strategyPhase L st q (getEnabledStrategies strats) filteredIndex []) (b_id b) =
              Some \<lparr>bookmark = b,
                    score = calculateScore (enabledIndex strats j) (totalEnabled strats),
                    result_matchType =
                      fieldToMatchType (field (strats ! j)) (matchType (strats ! j)),
                    matchedField = fieldName (field (strats ! j))\<rparr>
          \<and> getEnabledStrategies strats ! enabledIndex strats j = strats ! j)
       \<and> ((\<forall>j. \<not> firstEnabledMatch L st q b strats j) \<longrightarrow>
            map_of (strategyPhase L st q (getEnabledStrategies strats) filteredIndex []) (b_id b)
              = None)
       \<and> distinct (map fst (strategyPhase L st q (getEnabledStrategies strats) filteredIndex []))
       \<and> length (getEnabledStrategies strats) = totalEnabled strats
       \<and> (\<forall>s \<in> set (getEnabledStrategies strats). s \<in> set strats \<and> enabled s)"
proof -
  let ?P = "\<lambda>s. applicable st s \<and> strategyMatches L q b s"
  let ?es = "getEnabledStrategies strats"
  have es: "?es = filter enabled strats" by (simp add: getEnabledStrategies_def)
  have fe: "firstEnabledMatch L st q b strats j \<longleftrightarrow>
            findIndex (\<lambda>s. enabled s \<and> ?P s) strats = Some j" for j
    by (simp add: firstEnabledMatch_def findIndex_Some_iff)
  have fm: "firstMatch L st q b ?es i \<longleftrightarrow> findIndex ?P ?es = Some i" for i
    by (simp add: firstMatch_def findIndex_Some_iff)
  have c1: "map_of (strategyPhase L st q ?es filteredIndex []) (b_id b) =
              Some \<lparr>bookmark = b,
                    score = calculateScore (enabledIndex strats j) (totalEnabled strats),
                    result_matchType =
                      fieldToMatchType (field (strats ! j)) (matchType (strats ! j)),
                    matchedField = fieldName (field (strats ! j))\<rparr>
          \<and> ?es ! enabledIndex strats j = strats ! j"
    if h: "firstEnabledMatch L st q b strats j"
  proof -
    from h have f: "findIndex (\<lambda>s. enabled s \<and> ?P s) strats = Some j" by (simp only: fe)
    then have "findIndex ?P ?es = Some (enabledIndex strats j)"
      by (simp add: es findIndex_filter enabledIndex_def)
    then have m: "firstMatch L st q b ?es (enabledIndex strats j)" by (simp only: fm)
    have n: "?es ! enabledIndex strats j = strats ! j"
      unfolding es enabledIndex_def by (rule findIndex_filter_nth [OF f])
    from strategyPhase_first_match_list [OF assms, of L st q ?es "enabledIndex strats j"] m n
    show ?thesis by (simp add: totalEnabled_def es)
  qed
  have c2: "map_of (strategyPhase L st q ?es filteredIndex []) (b_id b) = None"
    if h: "\<forall>j. \<not> firstEnabledMatch L st q b strats j"
  proof -
    from h have "findIndex (\<lambda>s. enabled s \<and> ?P s) strats = None"
      by (cases "findIndex (\<lambda>s. enabled s \<and> ?P s) strats") (auto simp: fe)
    then have "findIndex ?P ?es = None" by (simp add: es findIndex_filter)
    then have "\<forall>i. \<not> firstMatch L st q b ?es i" by (simp add: fm)
    with strategyPhase_first_match_list [OF assms, of L st q ?es] show ?thesis by blast
  qed
  have c3: "distinct (map fst (strategyPhase L st q ?es filteredIndex []))"
    by (rule strategyPhase_distinct) simp
  have c4: "length ?es = totalEnabled strats" by (simp add: es totalEnabled_def)
  have c5: "\<forall>s \<in> set ?es. s \<in> set strats \<and> enabled s" by (simp add: es)
  from c1 c2 c3 c4 c5 show ?thesis by blast
qed

theorem strategyPhase_first_match_witness:
  "firstEnabledMatch exampleLibs SearchDefault (js ''react'') bookmarkR mixedStrategies 2
   \<and> \<not> enabled (mixedStrategies ! 1)
   \<and> strategyMatches exampleLibs (js ''react'') bookmarkR (mixedStrategies ! 1)
   \<and> enabledIndex mixedStrategies 2 = 1
   \<and> totalEnabled mixedStrategies = 3
   \<and> map_of (strategyPhase exampleLibs SearchDefault (js ''react'')
            (getEnabledStrategies mixedStrategies) [bookmarkA, bookmarkR] [])
       (b_id bookmarkR) =
       Some \<lparr>bookmark = bookmarkR, score = 70, result_matchType = MT_exact,
             matchedField = js ''url''\<rparr>"
proof -
  have d: "distinct (map b_id [bookmarkA, bookmarkR])"
    by (simp add: bookmarkA_def bookmarkR_def exampleBookmark_def)
  have m: "bookmarkR \<in> set [bookmarkA, bookmarkR]" by simp
  have two: "(\<forall>j' < 2. P j') \<longleftrightarrow> P 0 \<and> P (Suc 0)" for P :: "nat \<Rightarrow> bool"
    by (auto simp: less_Suc_eq numeral_2_eq_2)
  have f: "firstEnabledMatch exampleLibs SearchDefault (js ''react'') bookmarkR mixedStrategies 2"
    by (simp add: firstEnabledMatch_def two applicable_def strategyMatches_def getFieldText_def
        checkMatch_def exampleLibs_def lowerASCII_def bookmarkR_def exampleBookmark_def
        mixedStrategies_def js_def)
  have o: "\<not> enabled (mixedStrategies ! 1)"
    "strategyMatches exampleLibs (js ''react'') bookmarkR (mixedStrategies ! 1)"
    by (simp_all add: strategyMatches_def getFieldText_def checkMatch_def exampleLibs_def
        lowerASCII_def bookmarkR_def exampleBookmark_def mixedStrategies_def js_def)
  have v: "enabledIndex mixedStrategies 2 = 1" "totalEnabled mixedStrategies = 3"
    "calculateScore 1 3 = 70"
    "fieldToMatchType (field (mixedStrategies ! 2)) (matchType (mixedStrategies ! 2)) = MT_exact"
    "fieldName (field (mixedStrategies ! 2)) = js ''url''"
    by (simp_all add: enabledIndex_def totalEnabled_def calculateScore_def mixedStrategies_def
        fieldToMatchType_def fieldName_def numeral_2_eq_2)
  from strategyPhase_first_match [OF d m, of exampleLibs SearchDefault "js ''react''"
      mixedStrategies 2] f
  have "map_of (strategyPhase exampleLibs SearchDefault (js ''react'')
            (getEnabledStrategies mixedStrategies) [bookmarkA, bookmarkR] [])
       (b_id bookmarkR) =
       Some \<lparr>bookmark = bookmarkR,
             score = calculateScore (enabledIndex mixedStrategies 2) (totalEnabled mixedStrategies),
             result_matchType =
               fieldToMatchType (field (mixedStrategies ! 2)) (matchType (mixedStrategies ! 2)),
             matchedField = fieldName (field (mixedStrategies ! 2))\<rparr>"
    by blast
  then have r: "map_of (strategyPhase exampleLibs SearchDefault (js ''react'')
            (getEnabledStrategies mixedStrategies) [bookmarkA, bookmarkR] [])
       (b_id bookmarkR) =
       Some \<lparr>bookmark = bookmarkR, score = 70, result_matchType = MT_exact,
             matchedField = js ''url''\<rparr>"
    by (simp only: v)
  from f o v(1,2) r show ?thesis by blast
qed


subsection \<open>Sorting\<close>

lemma js_insert_insort_key:
  "(\<And>x y. cmp x y > 0 \<longleftrightarrow> key y < key x) \<Longrightarrow> js_insert cmp x ys = insort_key key x ys"
  by (induction ys) (auto simp: not_less)

lemma js_sort_sort_key:
  assumes "\<And>x y. cmp x y > 0 \<longleftrightarrow> key y < key x"
  shows "js_sort cmp xs = sort_key key xs"
proof (induction xs)
  case Nil
  then show ?case by simp
next
  case (Cons x xs)
  then show ?case by (simp add: js_insert_insort_key [of cmp key, OF assms])
qed

lemma compareCategoryListing_key:
  "compareCategoryListing x y > 0 \<longleftrightarrow>
     (\<not> isPinned y, - lastUpdated y) < (\<not> isPinned x, - lastUpdated x)"
  by (auto simp: compareCategoryListing_def)

lemma compareResults_key:
  "compareResults x y > 0 \<longleftrightarrow>
     (\<not> isPinned (bookmark y), - score y) < (\<not> isPinned (bookmark x), - score x)"
  by (auto simp: compareResults_def)

lemma js_sort_category:
  "js_sort compareCategoryListing xs = sort_key (\<lambda>b. (\<not> isPinned b, - lastUpdated b)) xs"
  by (rule js_sort_sort_key) (rule compareCategoryListing_key)

lemma js_sort_results:
  "js_sort compareResults xs = sort_key (\<lambda>r. (\<not> isPinned (bookmark r), - score r)) xs"
  by (rule js_sort_sort_key) (rule compareResults_key)


subsection \<open>The category prefix\<close>

lemma sign_not_white: "c = 0x0040 \<or> c = 0xFF20 \<Longrightarrow> \<not> isWhiteSpace c"
  by (auto simp: isWhiteSpace_def isLineTerminator_def)

lemma match_token_only:
  assumes "c = 0x0040 \<or> c = 0xFF20" and "token \<noteq> []" and "\<forall>x\<in>set token. \<not> isWhiteSpace x"
  shows "match_CATEGORY_PREFIX (c # token) = Some (token, None)"
  using assms by (auto simp: match_CATEGORY_PREFIX_def Let_def takeWhile_eq_all_conv [THEN iffD2]
      dropWhile_eq_Nil_conv)

lemma match_token_rest:
  assumes "c = 0x0040 \<or> c = 0xFF20" and "token \<noteq> []" and "\<forall>x\<in>set token. \<not> isWhiteSpace x"
    and "sep \<noteq> []" and "\<forall>x\<in>set sep. isWhiteSpace x"
    and "rest \<noteq> []" and "\<not> isWhiteSpace (hd rest)" and "\<forall>x\<in>set rest. \<not> isLineTerminator x"
  shows "match_CATEGORY_PREFIX (c # token @ sep @ rest) = Some (token, Some rest)"
proof -
  obtain s sep' where sep: "sep = s # sep'" using assms(4) by (cases sep) auto
  with assms(5) have s: "isWhiteSpace s" by simp
  have tw: "takeWhile (\<lambda>x. \<not> isWhiteSpace x) (token @ sep @ rest) = token"
    using assms(3) s by (simp add: takeWhile_append2 sep)
  have dw: "dropWhile (\<lambda>x. \<not> isWhiteSpace x) (token @ sep @ rest) = sep @ rest"
    using assms(3) s by (simp add: dropWhile_append2 sep)
  have r: "dropWhile isWhiteSpace (sep @ rest) = rest"
    using assms(5,6,7) by (cases rest) (auto simp: dropWhile_all)
  have nl: "\<not> list_ex isLineTerminator rest"
    using assms(8) by (simp add: list_ex_iff)
  show ?thesis
    using assms(1,2,4) by (auto simp: match_CATEGORY_PREFIX_def Let_def tw dw r nl)
qed

lemma parse_token_only:
  assumes "c = 0x0040 \<or> c = 0xFF20" and "token \<noteq> []" and "\<forall>x\<in>set token. \<not> isWhiteSpace x"
    and "\<forall>x\<in>set pre. isWhiteSpace x" and "\<forall>x\<in>set post. isWhiteSpace x"
  shows "trim (pre @ c # token @ post) = c # token"
    and "isCategorySearch (pre @ c # token @ post)"
    and "parseCategorySearch (pre @ c # token @ post) = \<lparr>cq_category = token, cq_keyword = []\<rparr>"
proof -
  have "last (c # token) = last token" using assms(2) by simp
  then have "\<not> isWhiteSpace (last (c # token))" using assms(2,3) by simp
  with trim_core [of pre post "c # token"] assms sign_not_white [of c]
  show t: "trim (pre @ c # token @ post) = c # token" by simp
  show "isCategorySearch (pre @ c # token @ post)"
    by (simp add: isCategorySearch_def t match_token_only [OF assms(1,2,3)])
  show "parseCategorySearch (pre @ c # token @ post) = \<lparr>cq_category = token, cq_keyword = []\<rparr>"
    by (simp add: parseCategorySearch_def t match_token_only [OF assms(1,2,3)] trim_Nil)
qed

lemma parse_token_rest:
  assumes "c = 0x0040 \<or> c = 0xFF20" and "token \<noteq> []" and "\<forall>x\<in>set token. \<not> isWhiteSpace x"
    and "sep \<noteq> []" and "\<forall>x\<in>set sep. isWhiteSpace x"
    and "rest \<noteq> []" and "\<not> isWhiteSpace (hd rest)" and "\<not> isWhiteSpace (last rest)"
    and "\<forall>x\<in>set rest. \<not> isLineTerminator x"
    and "\<forall>x\<in>set pre. isWhiteSpace x" and "\<forall>x\<in>set post. isWhiteSpace x"
  shows "parseCategorySearch (pre @ c # token @ sep @ rest @ post) =
           \<lparr>cq_category = token, cq_keyword = rest\<rparr>"
proof -
  have "last (c # token @ sep @ rest) = last rest" using assms(6) by simp
  then have "\<not> isWhiteSpace (last (c # token @ sep @ rest))" using assms(8) by simp
  with trim_core [of pre post "c # token @ sep @ rest"] assms(10,11) sign_not_white [OF assms(1)]
  have t: "trim (pre @ c # token @ sep @ rest @ post) = c # token @ sep @ rest" by simp
  have tr: "trim rest = rest"
    using trim_core [of "[]" "[]" rest] assms(6,7,8) by simp
  show ?thesis
    by (simp add: parseCategorySearch_def t tr
        match_token_rest [OF assms(1,2,3,4,5,6,7,9)])
qed

lemma filter_inCategory:
  "filter (\<lambda>b. (case category b of None \<Rightarrow> None | Some c \<Rightarrow> Some (toLowerCase L (cat_name c)))
               = Some (toLowerCase L token)) idx = filter (inCategory L token) idx"
  by (rule filter_cong) (auto simp: inCategory_def split: option.splits)

lemma search_category_only:
  assumes "c = 0x0040 \<or> c = 0xFF20" and "token \<noteq> []" and "\<forall>x\<in>set token. \<not> isWhiteSpace x"
    and "\<forall>x\<in>set pre. isWhiteSpace x" and "\<forall>x\<in>set post. isWhiteSpace x"
  shows "search L S \<lparr>query = pre @ c # token @ post, searchType = st, limit = lm\<rparr> =
         map Some (categoryListing_spec L (searchIndex S) token
                     (case lm of None \<Rightarrow> 20 | Some n \<Rightarrow> n))"
  using parse_token_only [OF assms]
  by (simp add: search_def Let_def filter_inCategory categoryListing_spec_def js_sort_category
      categoryResult_def)


text \<open>
  Claim C3, as amended. For a query that consists of the sign (\<^verbatim>\<open>@\<close> or its full-width
  form), a token without white space, and optionally white space and a rest on one line,
  possibly with white space around the whole, \<^verbatim>\<open>parseCategorySearch\<close> yields the token as the
  category and the rest as the keyword. When the rest is empty, \<^verbatim>\<open>search\<close> returns the
  bookmarks whose category name equals the token case-insensitively, sorted pinned first
  and then by last update, newest first, cut to the first \<^verbatim>\<open>limit\<close> entries (20 by default),
  each with score 100 and match type category, and no ranking strategy runs. These are all
  bookmarks of the category when there are at most \<^verbatim>\<open>limit\<close> of them.
\<close>

theorem category_prefix_search:
  assumes "c = 0x0040 \<or> c = 0xFF20"
    and "token \<noteq> []" and "\<forall>x\<in>set token. \<not> isWhiteSpace x"
    and "sep \<noteq> []" and "\<forall>x\<in>set sep. isWhiteSpace x"
    and "rest \<noteq> []" and "\<not> isWhiteSpace (hd rest)" and "\<not> isWhiteSpace (last rest)"
    and "\<forall>x\<in>set rest. \<not> isLineTerminator x"
    and "\<forall>x\<in>set pre. isWhiteSpace x" and "\<forall>x\<in>set post. isWhiteSpace x"
  shows "parseCategorySearch (pre @ c # token @ sep @ rest @ post) =
           \<lparr>cq_category = token, cq_keyword = rest\<rparr>
       \<and> parseCategorySearch (pre @ c # token @ post) = \<lparr>cq_category = token, cq_keyword = []\<rparr>
       \<and> search L S \<lparr>query = pre @ c # token @ post, searchType = st, limit = lm\<rparr> =
           map Some (categoryListing_spec L (searchIndex S) token
                       (case lm of None \<Rightarrow> 20 | Some n \<Rightarrow> n))
       \<and> (length (filter (inCategory L token) (searchIndex S))
              \<le> (case lm of None \<Rightarrow> 20 | Some n \<Rightarrow> n) \<longrightarrow>
            set (map bookmark (categoryListing_spec L (searchIndex S) token
                       (case lm of None \<Rightarrow> 20 | Some n \<Rightarrow> n))) =
            {b \<in> set (searchIndex S). inCategory L token b})"
proof (intro conjI impI)
  show "parseCategorySearch (pre @ c # token @ sep @ rest @ post) =
           \<lparr>cq_category = token, cq_keyword = rest\<rparr>"
    by (rule parse_token_rest [OF assms])
  show "parseCategorySearch (pre @ c # token @ post) = \<lparr>cq_category = token, cq_keyword = []\<rparr>"
    by (rule parse_token_only(3) [OF assms(1,2,3,10,11)])
  show "search L S \<lparr>query = pre @ c # token @ post, searchType = st, limit = lm\<rparr> =
           map Some (categoryListing_spec L (searchIndex S) token
                       (case lm of None \<Rightarrow> 20 | Some n \<Rightarrow> n))"
    by (rule search_category_only [OF assms(1,2,3,10,11)])
next
  let ?n = "case lm of None \<Rightarrow> 20 | Some n \<Rightarrow> n"
  assume "length (filter (inCategory L token) (searchIndex S)) \<le> ?n"
  then have "take ?n (sort_key (\<lambda>b. (\<not> isPinned b, - lastUpdated b))
                 (filter (inCategory L token) (searchIndex S))) =
             sort_key (\<lambda>b. (\<not> isPinned b, - lastUpdated b))
                 (filter (inCategory L token) (searchIndex S))"
    by simp
  then show "set (map bookmark (categoryListing_spec L (searchIndex S) token ?n)) =
            {b \<in> set (searchIndex S). inCategory L token b}"
    by (simp add: categoryListing_spec_def image_image del: take_all_iff) 
qed


lemma dev_listing:
  "categoryListing_spec exampleLibs (searchIndex devState) (js ''dev'') n =
     map categoryResult (take n [devNew, devOld])"
  by (simp add: categoryListing_spec_def categoryResult_def devState_def inCategory_def
      bookmarkA_def devOld_def devNew_def exampleBookmark_def exampleLibs_def lowerASCII_def
      js_def less_eq_prod_def)

theorem category_prefix_search_witness:
  "parseCategorySearch ([0x0040, 0x670D, 0x52A1, 0x5668, 0x0020] @ js ''react'') =
     \<lparr>cq_category = [0x670D, 0x52A1, 0x5668], cq_keyword = js ''react''\<rparr>
   \<and> parseCategorySearch [0x0040, 0x670D, 0x52A1, 0x5668] =
     \<lparr>cq_category = [0x670D, 0x52A1, 0x5668], cq_keyword = []\<rparr>
   \<and> search exampleLibs devState
        \<lparr>query = 0xFF20 # js ''dev'', searchType = None, limit = None\<rparr> =
       [Some (categoryResult devNew), Some (categoryResult devOld)]
   \<and> {b \<in> set (searchIndex devState). inCategory exampleLibs (js ''dev'') b} = {devNew, devOld}"
proof -
  have h1: "(0x0040::nat) = 0x0040 \<or> (0x0040::nat) = 0xFF20"
    and g1: "(0xFF20::nat) = 0x0040 \<or> (0xFF20::nat) = 0xFF20" by simp_all
  have h2: "[0x670D, 0x52A1, 0x5668] \<noteq> ([]::jsstring)" and g2: "js ''dev'' \<noteq> []"
    by (simp_all add: js_def)
  have h3: "\<forall>x\<in>set [0x670D, 0x52A1, 0x5668]. \<not> isWhiteSpace x"
    and g3: "\<forall>x\<in>set (js ''dev''). \<not> isWhiteSpace x"
    by (simp_all add: js_def isWhiteSpace_def isLineTerminator_def)
  have h4: "[0x0020] \<noteq> ([]::jsstring)" by simp
  have h5: "\<forall>x\<in>set [0x0020]. isWhiteSpace x" by (simp add: isWhiteSpace_def)
  have h6: "js ''react'' \<noteq> []" by (simp add: js_def)
  have h7: "\<not> isWhiteSpace (hd (js ''react''))"
    by (simp add: js_def isWhiteSpace_def isLineTerminator_def)
  have h8: "\<not> isWhiteSpace (last (js ''react''))"
    by (simp add: js_def isWhiteSpace_def isLineTerminator_def)
  have h9: "\<forall>x\<in>set (js ''react''). \<not> isLineTerminator x"
    by (simp add: js_def isLineTerminator_def)
  have h10: "\<forall>x\<in>set ([]::jsstring). isWhiteSpace x" by simp
  have len: "length (filter (inCategory exampleLibs (js ''dev'')) (searchIndex devState)) \<le> 20"
    by (rule order_trans [OF length_filter_le]) (simp add: devState_def)
  from category_prefix_search [OF h1 h2 h3 h4 h5 h6 h7 h8 h9 h10 h10, of exampleLibs devState None None]
    category_prefix_search [OF g1 g2 g3 h4 h5 h6 h7 h8 h9 h10 h10, of exampleLibs devState None None]
    len
  show ?thesis
    by (simp add: dev_listing categoryResult_def)
qed

text \<open>
  The claim as first stated (all bookmarks of the category are returned) fails when the
  category holds more bookmarks than the limit: with limit 1 and two bookmarks in the
  category "dev", the search for \<^verbatim>\<open>@dev\<close> returns the newer one only.
\<close>

theorem category_listing_counterexample:
  "map (map_option bookmark)
     (search exampleLibs devState \<lparr>query = js ''@dev'', searchType = None, limit = Some 1\<rparr>) =
     [Some devNew]
   \<and> filter (inCategory exampleLibs (js ''dev'')) (searchIndex devState) = [devOld, devNew]"
proof -
  have q: "js ''@dev'' = 0x0040 # js ''dev''" by (simp add: js_def)
  have "\<forall>x\<in>set (js ''dev''). \<not> isWhiteSpace x"
    by (simp add: js_def isWhiteSpace_def isLineTerminator_def)
  with search_category_only [of "0x0040" "js ''dev''" "[]" "[]" exampleLibs devState None "Some 1"]
  have s: "search exampleLibs devState
             \<lparr>query = js ''@dev'', searchType = None, limit = Some 1\<rparr> =
           map Some (categoryListing_spec exampleLibs (searchIndex devState) (js ''dev'') 1)"
    by (simp add: q) (simp add: js_def)
  have f: "filter (inCategory exampleLibs (js ''dev'')) (searchIndex devState) = [devOld, devNew]"
    by (simp add: devState_def inCategory_def bookmarkA_def devOld_def devNew_def
        exampleBookmark_def exampleLibs_def lowerASCII_def js_def)
  show ?thesis
    unfolding s f by (simp add: dev_listing categoryResult_def)
qed


subsection \<open>Pinned results first\<close>

lemma pinnedFirst_append:
  assumes "\<forall>x\<in>set ps. isPinnedEntry x" and "\<forall>x\<in>set ns. \<not> isPinnedEntry x"
  shows "pinnedFirst (ps @ ns)"
  unfolding pinnedFirst_def
proof (intro allI impI)
  fix i j
  assume h: "i < length (ps @ ns) \<and> j < length (ps @ ns) \<and>
        isPinnedEntry ((ps @ ns) ! j) \<and> \<not> isPinnedEntry ((ps @ ns) ! i)"
  then have pj: "isPinnedEntry ((ps @ ns) ! j)" and ni: "\<not> isPinnedEntry ((ps @ ns) ! i)"
    by simp_all
  have "j < length ps"
  proof (rule ccontr)
    assume "\<not> j < length ps"
    moreover from h have "j < length ps + length ns" by simp
    ultimately have "j - length ps < length ns" by linarith
    then have "ns ! (j - length ps) \<in> set ns" by (rule nth_mem)
    with \<open>\<not> j < length ps\<close> have "(ps @ ns) ! j \<in> set ns" by (simp add: nth_append)
    with assms(2) pj show False by blast
  qed
  moreover have "\<not> i < length ps"
  proof
    assume "i < length ps"
    then have "ps ! i \<in> set ps" by (rule nth_mem)
    with \<open>i < length ps\<close> have "(ps @ ns) ! i \<in> set ps" by (simp add: nth_append)
    with assms(1) ni show False by blast
  qed
  ultimately show "j < i" by simp
qed

lemma sortByFrecency_elements:
  "x \<in> set (sortByFrecency L q results) \<Longrightarrow> x = None \<or> (\<exists>r\<in>set results. x = Some r)"
  by (auto simp: sortByFrecency_def Let_def split: option.splits if_splits)

lemma rankedSearch_pinnedFirst: "pinnedFirst (rankedSearch L S st n q eq idx)"
proof -
  have "pinnedFirst (map Some (filter (\<lambda>r. isPinned (bookmark r)) xs) @
          sortByFrecency L q' (filter (\<lambda>r. \<not> isPinned (bookmark r)) xs))" for xs q'
  proof (rule pinnedFirst_append)
    show "\<forall>x\<in>set (map Some (filter (\<lambda>r. isPinned (bookmark r)) xs)). isPinnedEntry x"
      by (auto simp: isPinnedEntry_def)
    show "\<forall>x\<in>set (sortByFrecency L q' (filter (\<lambda>r. \<not> isPinned (bookmark r)) xs)).
            \<not> isPinnedEntry x"
    proof
      fix x
      assume "x \<in> set (sortByFrecency L q' (filter (\<lambda>r. \<not> isPinned (bookmark r)) xs))"
      from sortByFrecency_elements [OF this] show "\<not> isPinnedEntry x"
        by (auto simp: isPinnedEntry_def)
    qed
  qed
  then show ?thesis by (simp add: rankedSearch_def Let_def)
qed

lemma sorted_key_pinnedFirst:
  assumes "sorted (map (\<lambda>b. (\<not> isPinned b, - lastUpdated b)) ys)"
  shows "pinnedFirst (map Some (map categoryResult ys))"
  unfolding pinnedFirst_def
proof (intro allI impI)
  fix i j
  assume h: "i < length (map Some (map categoryResult ys)) \<and>
        j < length (map Some (map categoryResult ys)) \<and>
        isPinnedEntry (map Some (map categoryResult ys) ! j) \<and>
        \<not> isPinnedEntry (map Some (map categoryResult ys) ! i)"
  then have ij: "i < length ys" "j < length ys" by simp_all
  with h have pj: "isPinned (ys ! j)" and ni: "\<not> isPinned (ys ! i)"
    by (simp_all add: categoryResult_def isPinnedEntry_def)
  show "j < i"
  proof (rule ccontr)
    assume "\<not> j < i"
    then have "i \<le> j" by simp
    with assms ij have "map (\<lambda>b. (\<not> isPinned b, - lastUpdated b)) ys ! i
          \<le> map (\<lambda>b. (\<not> isPinned b, - lastUpdated b)) ys ! j"
      by (simp add: sorted_iff_nth_mono del: nth_map)
    with ij pj ni show False by (simp add: less_eq_prod_def)
  qed
qed

lemma category_listing_pinnedFirst:
  "pinnedFirst (map Some (map categoryResult (take n (js_sort compareCategoryListing xs))))"
proof (rule sorted_key_pinnedFirst)
  have "sorted (map (\<lambda>b. (\<not> isPinned b, - lastUpdated b))
          (sort_key (\<lambda>b. (\<not> isPinned b, - lastUpdated b)) xs))"
    by (rule sorted_sort_key)
  then have "sorted (take n (map (\<lambda>b. (\<not> isPinned b, - lastUpdated b))
          (sort_key (\<lambda>b. (\<not> isPinned b, - lastUpdated b)) xs)))"
    by (rule sorted_wrt_take)
  then show "sorted (map (\<lambda>b. (\<not> isPinned b, - lastUpdated b))
          (take n (js_sort compareCategoryListing xs)))"
    by (simp add: take_map js_sort_category)
qed

lemma category_listing_pinnedFirst_comp:
  "pinnedFirst (map (Some \<circ> categoryResult) (take n (js_sort compareCategoryListing xs)))"
  using category_listing_pinnedFirst [of n xs] by simp

lemma pinnedFirst_Nil: "pinnedFirst []"
  by (simp add: pinnedFirst_def)

text \<open>
  Claim C2. In every result list of \<^verbatim>\<open>search\<close>, every pinned result stands before every
  result that is not pinned, whatever the scores and whatever the frecency library
  answers: the ranked results are split, only the part that is not pinned is passed to
  \<^verbatim>\<open>sortByFrecency\<close>, and its answer is appended to the pinned part.
\<close>

theorem search_pinned_first:
  "pinnedFirst (search L S options)
   \<and> rankedSearch L S st n q eq idx =
       (let ranked = take n (js_sort compareResults (map snd
              (fuzzyPhase L S (getEnabledStrategies (activeStrategies S)) eq n
                 (strategyPhase L st eq (getEnabledStrategies (activeStrategies S)) idx []))))
        in map Some (filter (\<lambda>r. isPinned (bookmark r)) ranked) @
           sortByFrecency L (if eq \<noteq> [] then eq else q)
             (filter (\<lambda>r. \<not> isPinned (bookmark r)) ranked))"
proof
  show "pinnedFirst (search L S options)"
    by (simp add: search_def Let_def pinnedFirst_Nil rankedSearch_pinnedFirst
        category_listing_pinnedFirst_comp)
  show "rankedSearch L S st n q eq idx =
       (let ranked = take n (js_sort compareResults (map snd
              (fuzzyPhase L S (getEnabledStrategies (activeStrategies S)) eq n
                 (strategyPhase L st eq (getEnabledStrategies (activeStrategies S)) idx []))))
        in map Some (filter (\<lambda>r. isPinned (bookmark r)) ranked) @
           sortByFrecency L (if eq \<noteq> [] then eq else q)
             (filter (\<lambda>r. \<not> isPinned (bookmark r)) ranked))"
    by (simp add: rankedSearch_def Let_def)
qed


lemma example_search:
  "search exampleLibs exampleState \<lparr>query = js ''react'', searchType = None, limit = None\<rparr> =
     [Some \<lparr>bookmark = bookmarkB, score = 100, result_matchType = MT_exact,
            matchedField = js ''title''\<rparr>,
      Some \<lparr>bookmark = bookmarkA, score = 100, result_matchType = MT_exact,
            matchedField = js ''title''\<rparr>,
      Some \<lparr>bookmark = bookmarkC, score = 70, result_matchType = MT_exact,
            matchedField = js ''url''\<rparr>]"
  by (simp add: search_def isCategorySearch_def match_CATEGORY_PREFIX_def trim_def
      isWhiteSpace_def isLineTerminator_def rankedSearch_def getEnabledStrategies_def
      exampleState_def exampleStrategies_def exampleLibs_def lowerASCII_def
      bookmarkA_def bookmarkB_def bookmarkC_def exampleBookmark_def
      checkMatch_def getFieldText_def fieldToMatchType_def fieldName_def calculateScore_def
      fuzzyPhase_def fuzzyBaseScore_def compareResults_def sortByFrecency_def js_def Let_def)

theorem search_pinned_first_witness:
  "pinnedFirst
     [Some \<lparr>bookmark = bookmarkB, score = 100, result_matchType = MT_exact,
            matchedField = js ''title''\<rparr>,
      Some \<lparr>bookmark = bookmarkA, score = 100, result_matchType = MT_exact,
            matchedField = js ''title''\<rparr>,
      Some \<lparr>bookmark = bookmarkC, score = 70, result_matchType = MT_exact,
            matchedField = js ''url''\<rparr>]
   \<and> isPinned bookmarkB \<and> \<not> isPinned bookmarkA \<and> \<not> isPinned bookmarkC"
  using search_pinned_first
    [of exampleLibs exampleState "\<lparr>query = js ''react'', searchType = None, limit = None\<rparr>"]
  by (simp add: example_search bookmarkA_def bookmarkB_def bookmarkC_def exampleBookmark_def)


subsection \<open>Phase 2\<close>

lemma map_set_absent: "map_of m k = None \<Longrightarrow> map_set k v m = m @ [(k, v)]"
  by (induction m) (auto split: if_splits)

lemma calculateScore_antimono: "i \<le> j \<Longrightarrow> calculateScore j n \<le> calculateScore i n"
proof -
  assume "i \<le> j"
  have pos: "0 < real_of_int (max 1 (int n - 1))" by simp
  from \<open>i \<le> j\<close> have "real i * 60 / real_of_int (max 1 (int n - 1))
        \<le> real j * 60 / real_of_int (max 1 (int n - 1))"
    by (intro divide_right_mono mult_right_mono) simp_all
  then show ?thesis by (simp add: calculateScore_def Let_def)
qed

lemma calculateScore_lower: "i < n \<Longrightarrow> 40 \<le> calculateScore i n"
proof -
  assume "i < n"
  then have "real i \<le> real_of_int (max 1 (int n - 1))" by simp
  moreover have "0 < real_of_int (max 1 (int n - 1))" by simp
  ultimately have "real i * 60 / real_of_int (max 1 (int n - 1)) \<le> 60"
    by (simp only: divide_le_eq) simp
  then show ?thesis by (simp add: calculateScore_def Let_def)
qed

lemma fuzzyBaseScore_nonneg: "0 \<le> fuzzyBaseScore es"
proof (cases "findIndex (\<lambda>s. matchType s = Fuzzy) es")
  case None
  then show ?thesis by (simp add: fuzzyBaseScore_def)
next
  case (Some f)
  then have "f < length es" by (simp add: findIndex_Some_iff)
  from calculateScore_lower [OF this] Some show ?thesis by (simp add: fuzzyBaseScore_def)
qed

lemma addFuzzy_appends:
  "\<exists>added. addFuzzy base hs results = results @ added \<and> length added \<le> length hs \<and>
     (\<forall>(k, r) \<in> set added. map_of results k = None \<and>
        (\<exists>h \<in> set hs. k = b_id (item h) \<and> r = fuzzyResult base h))"
proof (induction hs arbitrary: results)
  case Nil
  then show ?case by simp
next
  case (Cons h hs)
  show ?case
  proof (cases "map_of results (b_id (item h)) = None")
    case True
    let ?e = "(b_id (item h), fuzzyResult base h)"
    from Cons.IH [of "results @ [?e]"] obtain added where
      a: "addFuzzy base hs (results @ [?e]) = (results @ [?e]) @ added"
      and l: "length added \<le> length hs"
      and p: "\<forall>(k, r) \<in> set added. map_of (results @ [?e]) k = None \<and>
        (\<exists>h \<in> set hs. k = b_id (item h) \<and> r = fuzzyResult base h)"
      by blast
    have "addFuzzy base (h # hs) results = results @ (?e # added)"
      using True a by (simp add: map_set_absent)
    moreover have "length (?e # added) \<le> length (h # hs)" using l by simp
    moreover have "\<forall>(k, r) \<in> set (?e # added). map_of results k = None \<and>
        (\<exists>h' \<in> set (h # hs). k = b_id (item h') \<and> r = fuzzyResult base h')"
      using True p by (auto simp: map_add_def split: option.splits if_splits)
    ultimately show ?thesis by blast
  next
    case False
    from Cons.IH [of results] obtain added where
      a: "addFuzzy base hs results = results @ added"
      and l: "length added \<le> length hs"
      and p: "\<forall>(k, r) \<in> set added. map_of results k = None \<and>
        (\<exists>h \<in> set hs. k = b_id (item h) \<and> r = fuzzyResult base h)"
      by blast
    have "addFuzzy base (h # hs) results = results @ added" using False a by auto
    moreover have "length added \<le> length (h # hs)" using l by simp
    moreover have "\<forall>(k, r) \<in> set added. map_of results k = None \<and>
        (\<exists>h' \<in> set (h # hs). k = b_id (item h') \<and> r = fuzzyResult base h')"
      using p by auto
    ultimately show ?thesis by blast
  qed
qed


lemma score_fuzzyResult: "score (fuzzyResult base h) = base * (1 - hitScore h)"
  by (simp add: fuzzyResult_def hitScore_def Let_def)

lemma fuzzy_below_higher_priority:
  assumes "findIndex (\<lambda>s. matchType s = Fuzzy) es = Some f" and "i < f"
    and "0 \<le> hitScore h" and "hitScore h \<le> 1"
  shows "score (fuzzyResult (fuzzyBaseScore es) h) \<le> calculateScore i (length es)"
proof -
  from assms(1) have base: "fuzzyBaseScore es = calculateScore f (length es)"
    by (simp add: fuzzyBaseScore_def)
  have "0 \<le> fuzzyBaseScore es" by (rule fuzzyBaseScore_nonneg)
  moreover have "1 - hitScore h \<le> 1" using assms(3) by simp
  ultimately have "fuzzyBaseScore es * (1 - hitScore h) \<le> fuzzyBaseScore es * 1"
    by (rule mult_left_mono [rotated])
  also have "\<dots> = calculateScore f (length es)" by (simp add: base)
  also have "\<dots> \<le> calculateScore i (length es)"
    using assms(2) by (intro calculateScore_antimono) simp
  finally show ?thesis by (simp add: score_fuzzyResult)
qed

lemma fuzzy_by_quality:
  assumes "hitScore h1 \<le> hitScore h2"
  shows "score (fuzzyResult (fuzzyBaseScore es) h2) \<le> score (fuzzyResult (fuzzyBaseScore es) h1)"
proof -
  have "0 \<le> fuzzyBaseScore es" by (rule fuzzyBaseScore_nonneg)
  moreover from assms have "1 - hitScore h2 \<le> 1 - hitScore h1" by simp
  ultimately show ?thesis
    by (simp only: score_fuzzyResult mult_left_mono)
qed

text \<open>
  Claim C4. The fuzzy phase changes nothing unless the phase-1 result count is below the
  limit and an enabled strategy has fuzzy mode. Otherwise it appends at most
  \<open>limit - count\<close> results, each for a hit of the index whose bookmark had no result yet,
  scored as the base score of the first enabled fuzzy strategy (\<open>calculateScore\<close> of its
  position) times one minus the hit's Fuse.js score. With Fuse.js scores between 0 and 1,
  such a result never scores above a phase-1 result of a strategy that stands before the
  fuzzy strategy, and of two hits the one with the better match quality scores at least
  as high.
\<close>

theorem fuzzyPhase_properties:
  assumes "\<forall>h \<in> set (fuseSearch L (searchIndex S) eq). 0 \<le> hitScore h \<and> hitScore h \<le> 1"
  shows "(\<not> (length results < n \<and> list_ex (\<lambda>s. matchType s = Fuzzy) es) \<longrightarrow>
            fuzzyPhase L S es eq n results = results)
       \<and> (\<exists>added. fuzzyPhase L S es eq n results = results @ added
             \<and> length added \<le> n - length results
             \<and> (\<forall>(k, r) \<in> set added.
                   map_of results k = None
                 \<and> (\<exists>h \<in> set (fuseSearch L (searchIndex S) eq).
                       k = b_id (item h) \<and> bookmark r = item h
                     \<and> result_matchType r = MT_fuzzy
                     \<and> score r = fuzzyBaseScore es * (1 - hitScore h))
                 \<and> (\<forall>f i. findIndex (\<lambda>s. matchType s = Fuzzy) es = Some f \<and> i < f \<longrightarrow>
                       fuzzyBaseScore es = calculateScore f (length es)
                     \<and> score r \<le> calculateScore i (length es))))
       \<and> (\<forall>h1 h2. hitScore h1 \<le> hitScore h2 \<longrightarrow>
             score (fuzzyResult (fuzzyBaseScore es) h2)
               \<le> score (fuzzyResult (fuzzyBaseScore es) h1))"
proof (intro conjI)
  show "\<not> (length results < n \<and> list_ex (\<lambda>s. matchType s = Fuzzy) es) \<longrightarrow>
            fuzzyPhase L S es eq n results = results"
    by (auto simp: fuzzyPhase_def Let_def)
  show "\<forall>h1 h2. hitScore h1 \<le> hitScore h2 \<longrightarrow>
             score (fuzzyResult (fuzzyBaseScore es) h2)
               \<le> score (fuzzyResult (fuzzyBaseScore es) h1)"
    by (simp add: fuzzy_by_quality)
  let ?hits = "fuseSearch L (searchIndex S) eq"
  let ?good = "\<lambda>(k, r). map_of results k = None
                 \<and> (\<exists>h \<in> set ?hits.
                       k = b_id (item h) \<and> bookmark r = item h
                     \<and> result_matchType r = MT_fuzzy
                     \<and> score r = fuzzyBaseScore es * (1 - hitScore h))
                 \<and> (\<forall>f i. findIndex (\<lambda>s. matchType s = Fuzzy) es = Some f \<and> i < f \<longrightarrow>
                       fuzzyBaseScore es = calculateScore f (length es)
                     \<and> score r \<le> calculateScore i (length es))"
  show "\<exists>added. fuzzyPhase L S es eq n results = results @ added
             \<and> length added \<le> n - length results
             \<and> (\<forall>p \<in> set added. ?good p)"
  proof (cases "fuseInstance S \<and> length results < n \<and>
                list_ex (\<lambda>s. matchType s = Fuzzy) es \<and> eq \<noteq> []")
    case False
    then have "fuzzyPhase L S es eq n results = results @ []"
      by (auto simp: fuzzyPhase_def Let_def)
    then show ?thesis by (intro exI [of _ "[]"]) simp
  next
    case True
    let ?hs = "take (n - length results) ?hits"
    from addFuzzy_appends [of "fuzzyBaseScore es" ?hs results] obtain added where
      a: "addFuzzy (fuzzyBaseScore es) ?hs results = results @ added"
      and l: "length added \<le> length ?hs"
      and p: "\<forall>(k, r) \<in> set added. map_of results k = None \<and>
        (\<exists>h \<in> set ?hs. k = b_id (item h) \<and> r = fuzzyResult (fuzzyBaseScore es) h)"
      by blast
    have "fuzzyPhase L S es eq n results = results @ added"
      using True a by (simp add: fuzzyPhase_def Let_def)
    moreover have "length added \<le> n - length results" using l by simp
    moreover have "\<forall>p \<in> set added. ?good p"
    proof
      fix e
      assume e: "e \<in> set added"
      obtain k r where kr: "e = (k, r)" by (cases e)
      with e p obtain h where absent: "map_of results k = None"
        and h: "h \<in> set ?hs" "k = b_id (item h)" "r = fuzzyResult (fuzzyBaseScore es) h"
        by blast
      from h(1) have hin: "h \<in> set ?hits" by (rule in_set_takeD)
      with assms have range: "0 \<le> hitScore h" "hitScore h \<le> 1" by auto
      have "bookmark r = item h" "result_matchType r = MT_fuzzy"
        using h(3) by (simp_all add: fuzzyResult_def Let_def)
      moreover have "score r = fuzzyBaseScore es * (1 - hitScore h)"
        using h(3) by (simp add: score_fuzzyResult)
      moreover have "\<forall>f i. findIndex (\<lambda>s. matchType s = Fuzzy) es = Some f \<and> i < f \<longrightarrow>
                       fuzzyBaseScore es = calculateScore f (length es)
                     \<and> score r \<le> calculateScore i (length es)"
        using fuzzy_below_higher_priority [OF _ _ range] h(3)
        by (auto simp: fuzzyBaseScore_def)
      ultimately show "?good e" using absent hin h(2) kr by auto
    qed
    ultimately show ?thesis by blast
  qed
qed

theorem fuzzyPhase_properties_witness:
  "hitScore \<lparr>item = bookmarkC, fuse_score = Some (1 / 4)\<rparr> = 1 / 4
   \<and> findIndex (\<lambda>s. matchType s = Fuzzy) exampleStrategies = Some 2
   \<and> fuzzyPhase exampleFuzzyLibs exampleState exampleStrategies (js ''raect'') 20 [] =
       [(3, \<lparr>bookmark = bookmarkC, score = 30, result_matchType = MT_fuzzy,
              matchedField = js ''fuzzy''\<rparr>)]
   \<and> (30::real) \<le> calculateScore 1 (length exampleStrategies)"
proof -
  have r: "\<forall>h \<in> set (fuseSearch exampleFuzzyLibs (searchIndex exampleState) (js ''raect'')).
             0 \<le> hitScore h \<and> hitScore h \<le> 1"
    by (simp add: exampleFuzzyLibs_def hitScore_def)
  have f: "findIndex (\<lambda>s. matchType s = Fuzzy) exampleStrategies = Some 2"
    by (simp add: exampleStrategies_def)
  have e: "fuzzyPhase exampleFuzzyLibs exampleState exampleStrategies (js ''raect'') 20 [] =
       [(3, \<lparr>bookmark = bookmarkC, score = 30, result_matchType = MT_fuzzy,
              matchedField = js ''fuzzy''\<rparr>)]"
    by (simp add: fuzzyPhase_def fuzzyBaseScore_def f exampleFuzzyLibs_def exampleState_def
        exampleStrategies_def fuzzyResult_def calculateScore_def bookmarkC_def
        exampleBookmark_def js_def Let_def)
  from fuzzyPhase_properties [OF r, of "[]" 20 exampleStrategies] f e
  show ?thesis
    by (simp add: hitScore_def)
qed

section \<open>Properties of the garbled-content detector\<close>

lemma replacement_not_white: "\<not> isWhiteSpace REPLACEMENT_CHAR"
  by (simp add: REPLACEMENT_CHAR_def isWhiteSpace_def isLineTerminator_def)

lemma trim_replicate_replacement:
  "trim (replicate n REPLACEMENT_CHAR) = replicate n REPLACEMENT_CHAR"
proof (cases n)
  case 0
  then show ?thesis by (simp add: trim_Nil)
next
  case (Suc m)
  then show ?thesis
    by (intro trim_id) (simp_all add: replacement_not_white del: replicate_Suc)
qed

lemma detect_isGarbled_iff:
  "isGarbled (detectGarbledContent lower content)
     \<longleftrightarrow> 40 \<le> garbled_score (detectGarbledContent lower content)"
  by (simp add: detectGarbledContent_def Let_def)

lemma signalScore_replacement:
  assumes "0 < length (filter (\<lambda>c. c = REPLACEMENT_CHAR) t)"
    and "length t < 100 * length (filter (\<lambda>c. c = REPLACEMENT_CHAR) t)"
  shows "50 \<le> signalScore t"
  using assms by (simp add: signalScore_def Let_def)

lemma detect_short_replacement:
  assumes "0 < n" and "n < 50"
  shows "detectGarbledContent lower (replicate n REPLACEMENT_CHAR) =
           \<lparr>isGarbled = False, isEmpty = False, needsRefetch = True, garbled_score = 0\<rparr>"
  using assms by (simp add: detectGarbledContent_def Let_def trim_replicate_replacement)

lemma detect_long_replacement:
  assumes "50 \<le> n"
  shows "isGarbled (detectGarbledContent lower (replicate n REPLACEMENT_CHAR))"
proof -
  have "50 \<le> signalScore (replicate n REPLACEMENT_CHAR)"
    using assms by (intro signalScore_replacement) simp_all
  then have "40 \<le> signalScore (replicate n REPLACEMENT_CHAR)" by simp
  with assms show ?thesis
    by (simp add: detectGarbledContent_def Let_def trim_replicate_replacement)
qed

lemma detect_empty:
  "detectGarbledContent lower [] =
     \<lparr>isGarbled = False, isEmpty = True, needsRefetch = True, garbled_score = 0\<rparr>"
  by (simp add: detectGarbledContent_def)


lemma countMatches_none:
  "(\<And>s. set s \<subseteq> set t \<Longrightarrow> m s = None) \<Longrightarrow> countMatches m t = 0"
proof (induction t)
  case Nil
  then show ?case by simp
next
  case (Cons c cs)
  have "m (c # cs) = None" by (rule Cons.prems) simp
  moreover have "countMatches m cs = 0"
  proof (rule Cons.IH)
    fix s
    assume "set s \<subseteq> set cs"
    then have "set s \<subseteq> set (c # cs)" by auto
    then show "m s = None" by (rule Cons.prems)
  qed
  ultimately show ?case by simp
qed

lemma upperASCII_amp: "upperASCII x = 38 \<longleftrightarrow> x = 38"
  by (auto simp: upperASCII_def)

lemma upperASCII_38: "upperASCII 38 = 38"
  by (simp add: upperASCII_def)

lemma matchLiteralCI_none:
  assumes "38 \<notin> set s" and "lit = 38 # lit'"
  shows "matchLiteralCI lit s = None"
proof (cases s)
  case Nil
  with assms show ?thesis by (simp add: matchLiteralCI_def)
next
  case (Cons x xs)
  with assms(1) have "x \<noteq> 38" by auto
  then have "upperASCII x \<noteq> upperASCII 38" by (simp add: upperASCII_amp upperASCII_38)
  with Cons assms(2) show ?thesis by (simp add: matchLiteralCI_def)
qed

lemma matchEntity_none:
  assumes "38 \<notin> set s" and "pre = 38 # pre'"
  shows "matchEntity pre cls s = None"
proof (cases s)
  case Nil
  with assms show ?thesis by (simp add: matchEntity_def)
next
  case (Cons x xs)
  with assms(1) have "x \<noteq> 38" by auto
  then have "upperASCII x \<noteq> upperASCII 38" by (simp add: upperASCII_amp upperASCII_38)
  with Cons assms(2) show ?thesis by (simp add: matchEntity_def)
qed

lemma matchRun_none:
  assumes "\<forall>c\<in>set s. \<not> cls c" and "0 < k"
  shows "matchRun k cls s = None"
proof -
  from assms(1) have "takeWhile cls s = []" by (cases s) auto
  with assms(2) show ?thesis by (simp add: matchRun_def)
qed

lemma matchChar_none: "\<forall>c\<in>set s. \<not> cls c \<Longrightarrow> matchChar cls s = None"
  by (cases s) (auto simp: matchChar_def)

lemma entities_plain:
  assumes "\<forall>c\<in>set t. plainChar c"
  shows "count_HTML_ENTITY_PATTERNS t = 0"
proof -
  have amp: "38 \<notin> set s" if "set s \<subseteq> set t" for s
    using that assms by (auto simp: plainChar_def)
  have lit: "countMatches (matchLiteralCI (js l)) t = 0" if "js l = 38 # l'" for l l'
    by (rule countMatches_none) (rule matchLiteralCI_none [OF amp that])
  have ent: "countMatches (matchEntity (js l) cls) t = 0" if "js l = 38 # l'" for l l' cls
    by (rule countMatches_none) (rule matchEntity_none [OF amp that])
  have "countMatches (matchLiteralCI (js ''&nbsp;'')) t = 0"
    "countMatches (matchLiteralCI (js ''&amp;'')) t = 0"
    "countMatches (matchLiteralCI (js ''&lt;'')) t = 0"
    "countMatches (matchLiteralCI (js ''&gt;'')) t = 0"
    "countMatches (matchLiteralCI (js ''&quot;'')) t = 0"
    "countMatches (matchEntity (js ''&#'') isDigit) t = 0"
    "countMatches (matchEntity (js ''&#x'') isHexDigit) t = 0"
    by (rule lit ent, simp add: js_def)+
  then show ?thesis by (simp add: count_HTML_ENTITY_PATTERNS_def)
qed

lemma mojibake_plain:
  assumes "\<forall>c\<in>set t. plainChar c"
  shows "count_MOJIBAKE_CHAR_PATTERNS t = 0"
proof -
  have run: "countMatches (matchRun k cls) t = 0"
    if "0 < k" and "\<And>c. plainChar c \<Longrightarrow> \<not> cls c" for k cls
  proof (rule countMatches_none)
    fix s
    assume "set s \<subseteq> set t"
    with assms that(2) have "\<forall>c\<in>set s. \<not> cls c" by auto
    then show "matchRun k cls s = None" using that(1) by (rule matchRun_none)
  qed
  have "countMatches (matchChar mojibake1) t = 0"
  proof (rule countMatches_none)
    fix s
    assume "set s \<subseteq> set t"
    with assms have "\<forall>c\<in>set s. \<not> mojibake1 c" by (auto simp: plainChar_def)
    then show "matchChar mojibake1 s = None" by (rule matchChar_none)
  qed
  moreover have "countMatches (matchRun 2 mojibake2) t = 0"
    "countMatches (matchRun 2 mojibake3) t = 0"
    "countMatches (matchRun 3 mojibake4) t = 0"
    "countMatches (matchRun 3 mojibake5) t = 0"
    "countMatches (matchRun 2 mojibake6) t = 0"
    "countMatches (matchRun 3 mojibake7) t = 0"
    by (rule run, simp, simp add: plainChar_def)+
  ultimately show ?thesis by (simp add: count_MOJIBAKE_CHAR_PATTERNS_def)
qed

lemma question_plain:
  assumes "\<forall>c\<in>set t. plainChar c"
  shows "count_QUESTION_MARK_PATTERN t = 0"
  unfolding count_QUESTION_MARK_PATTERN_def
proof (rule countMatches_none)
  fix s
  assume "set s \<subseteq> set t"
  with assms have "\<forall>c\<in>set s. \<not> c = 63" by (auto simp: plainChar_def)
  then show "matchRun 3 (\<lambda>c. c = 63) s = None" by (intro matchRun_none) simp_all
qed

lemma signalScore_plain:
  assumes "\<forall>c\<in>set t. plainChar c"
  shows "signalScore t = 0"
proof -
  from assms have "filter (\<lambda>c. c = REPLACEMENT_CHAR) t = []"
    by (auto simp: filter_empty_conv plainChar_def)
  then show ?thesis
    by (simp add: signalScore_def Let_def entities_plain [OF assms] mojibake_plain [OF assms]
        question_plain [OF assms])
qed

lemma isHanText_plain: "isHanText c \<Longrightarrow> plainChar c"
  by (auto simp: isHanText_def plainChar_def REPLACEMENT_CHAR_def mojibake1_def mojibake2_def
      mojibake3_def mojibake4_def mojibake5_def mojibake6_def mojibake7_def)

lemma isHanText_not_white: "isHanText c \<Longrightarrow> \<not> isWhiteSpace c"
  by (auto simp: isHanText_def isWhiteSpace_def isLineTerminator_def)

lemma str_includes_hd: "str_includes t q \<Longrightarrow> q \<noteq> [] \<Longrightarrow> hd q \<in> set t"
proof (induction t)
  case Nil
  then show ?case by simp
next
  case (Cons c cs)
  then show ?case by (cases q) (auto simp: prefix_def)
qed

lemma detect_han_paragraph:
  assumes "50 \<le> length para" and "\<forall>c\<in>set para. isHanText c" and "lower para = para"
  shows "detectGarbledContent lower para =
           \<lparr>isGarbled = False, isEmpty = False, needsRefetch = False, garbled_score = 0\<rparr>"
proof -
  from assms(1) have ne: "para \<noteq> []" by auto
  then have "hd para \<in> set para" "last para \<in> set para" by simp_all
  with assms(2) have "\<not> isWhiteSpace (hd para)" "\<not> isWhiteSpace (last para)"
    by (auto dest: isHanText_not_white)
  with ne have t: "trim para = para" by (rule trim_id)
  have plain: "\<forall>c\<in>set para. plainChar c" using assms(2) by (auto dest: isHanText_plain)
  have nofr: "\<not> str_includes para (js q)" if "q = a # q'" and "of_char a < (128::nat)" for q a q'
  proof
    assume "str_includes para (js q)"
    then have "hd (js q) \<in> set para" by (rule str_includes_hd) (simp add: js_def that)
    with assms(2) have "isHanText (of_char a)" by (simp add: js_def that)
    with that(2) show False by (simp add: isHanText_def)
  qed
  have "\<not> str_includes para (js ''this page uses frames'')"
    "\<not> str_includes para (js ''your browser doesn't support'')"
    "\<not> str_includes para (js ''your browser does not support frames'')"
    by (rule nofr, simp, simp)+
  with assms(1,3) ne show ?thesis
    by (simp add: detectGarbledContent_def Let_def t signalScore_plain [OF plain])
qed


text \<open>
  Claim C9, as amended. A string of 40 Unicode replacement characters is below the minimum
  length of 50: the detector answers \<open>isGarbled = False\<close> with \<open>needsRefetch = True\<close> and score
  0; a string of 50 or more replacement characters is garbled. The empty string gives
  \<open>isEmpty = True\<close> and \<open>isGarbled = False\<close>. A paragraph of 500 Chinese ideographs and
  Chinese punctuation marks, which lower-casing leaves as it is, is not garbled. For every
  input, \<open>isGarbled\<close> holds exactly when the returned score is at least 40.
\<close>

theorem detectGarbledContent_classify:
  assumes "length para = 500" and "\<forall>c\<in>set para. isHanText c" and "lower para = para"
  shows "detectGarbledContent lower (replicate 40 REPLACEMENT_CHAR) =
           \<lparr>isGarbled = False, isEmpty = False, needsRefetch = True, garbled_score = 0\<rparr>
       \<and> (\<forall>n\<ge>50. isGarbled (detectGarbledContent lower (replicate n REPLACEMENT_CHAR)))
       \<and> isEmpty (detectGarbledContent lower [])
       \<and> \<not> isGarbled (detectGarbledContent lower [])
       \<and> \<not> isGarbled (detectGarbledContent lower para)
       \<and> (isGarbled (detectGarbledContent lower content)
            \<longleftrightarrow> 40 \<le> garbled_score (detectGarbledContent lower content))"
proof (intro conjI)
  show "detectGarbledContent lower (replicate 40 REPLACEMENT_CHAR) =
           \<lparr>isGarbled = False, isEmpty = False, needsRefetch = True, garbled_score = 0\<rparr>"
    by (rule detect_short_replacement) simp_all
  show "\<forall>n\<ge>50. isGarbled (detectGarbledContent lower (replicate n REPLACEMENT_CHAR))"
    by (simp add: detect_long_replacement)
  show "isEmpty (detectGarbledContent lower [])" "\<not> isGarbled (detectGarbledContent lower [])"
    by (simp_all add: detect_empty)
  from assms(1) have "50 \<le> length para" by simp
  from detect_han_paragraph [where lower = lower and para = para, OF this assms(2,3)]
  show "\<not> isGarbled (detectGarbledContent lower para)" by simp
  show "isGarbled (detectGarbledContent lower content)
            \<longleftrightarrow> 40 \<le> garbled_score (detectGarbledContent lower content)"
    by (rule detect_isGarbled_iff)
qed

lemma lowerASCII_replicate: "91 \<le> c \<Longrightarrow> lowerASCII (replicate n c) = replicate n c"
  by (simp add: lowerASCII_def)

theorem detectGarbledContent_classify_witness:
  "length (replicate 500 (0x4E2D::nat)) = 500
   \<and> list_all isHanText (replicate 500 0x4E2D)
   \<and> lowerASCII (replicate 500 0x4E2D) = replicate 500 0x4E2D
   \<and> \<not> isGarbled (detectGarbledContent lowerASCII (replicate 500 0x4E2D))
   \<and> isGarbled (detectGarbledContent lowerASCII (replicate 50 REPLACEMENT_CHAR))
   \<and> \<not> isGarbled (detectGarbledContent lowerASCII (replicate 40 REPLACEMENT_CHAR))"
proof -
  have l: "length (replicate 500 (0x4E2D::nat)) = 500" by simp
  have h: "\<forall>c\<in>set (replicate 500 (0x4E2D::nat)). isHanText c" by (simp add: isHanText_def)
  have k: "lowerASCII (replicate 500 0x4E2D) = replicate 500 0x4E2D"
    by (rule lowerASCII_replicate) simp
  from detectGarbledContent_classify
         [where lower = lowerASCII and para = "replicate 500 0x4E2D" and content = "[]", OF l h k]
  have "\<not> isGarbled (detectGarbledContent lowerASCII (replicate 500 0x4E2D))"
    and "\<forall>n\<ge>50. isGarbled (detectGarbledContent lowerASCII (replicate n REPLACEMENT_CHAR))"
    and "\<not> isGarbled (detectGarbledContent lowerASCII (replicate 40 REPLACEMENT_CHAR))"
    by simp_all
  with l h k show ?thesis by (simp add: list_all_iff)
qed

text \<open>The claim as first stated fails at the 40 replacement characters it names.\<close>

theorem detectGarbledContent_counterexample:
  "isGarbled (detectGarbledContent lowerASCII (replicate 40 REPLACEMENT_CHAR)) = False"
  by (simp add: detect_short_replacement)

section \<open>Properties of storage and the enrichment queue\<close>

subsection \<open>What \<^verbatim>\<open>summarizeBookmark\<close> preserves\<close>

text \<open>A relation between databases that is reflexive and transitive and holds for the
  three writes of \<^verbatim>\<open>summarizeBookmark\<close> holds between the database before and after it.\<close>

lemma summarizeBookmark_rel:
  assumes refl: "\<And>x. R x x"
    and trans: "\<And>x y z. R x y \<Longrightarrow> R y z \<Longrightarrow> R x z"
    and st: "\<And>s msg x. R x (updateStatus (b_id b) s msg now x)"
    and ct: "\<And>c h x. R x (updateContent (b_id b) c h now x)"
    and ins: "\<And>s i x x'. insertSummary s x = Inr (i, x') \<Longrightarrow> R x x'"
  shows "R d (snd (summarizeBookmark env now b d))"
proof -
  let ?d1 = "updateStatus (b_id b) Analyzing None now d"
  have k1: "R d ?d1" by (rule st)
  have fail: "R d (snd (summarizeFailed b e now x))" if "R d x" for e x
    using that st [of x] by (auto simp: summarizeFailed_def Let_def intro: trans)
  have rest: "R d
      (snd (case summarize env (originalTitle b) (url b) (orNull content) of
              Inl e \<Rightarrow> summarizeFailed b e now d2
            | Inr result \<Rightarrow>
                (case AISummaryRepository_create
                        \<lparr>s_id = 0, bookmarkId = b_id b, aiProvider = provider,
                         aiModel = None, summaryText = summaryZh result,
                         summaryOriginal = summaryOriginal_r result,
                         confidenceScore = confidence result,
                         language = language_r result, summary_createdAt = now\<rparr> d2 of
                   Inl e \<Rightarrow> summarizeFailed b e now d2
                 | Inr (i, db3) \<Rightarrow> (True, updateStatus (b_id b) Completed None now db3))))"
    if k2: "R d d2" for content d2 provider
  proof (cases "summarize env (originalTitle b) (url b) (orNull content)")
    case (Inl e)
    then show ?thesis by (simp add: fail [OF k2])
  next
    case (Inr result)
    show ?thesis
    proof (cases "AISummaryRepository_create
                        \<lparr>s_id = 0, bookmarkId = b_id b, aiProvider = provider,
                         aiModel = None, summaryText = summaryZh result,
                         summaryOriginal = summaryOriginal_r result,
                         confidenceScore = confidence result,
                         language = language_r result, summary_createdAt = now\<rparr> d2")
      case (Inl e)
      with Inr show ?thesis by (simp add: fail [OF k2])
    next
      case ok: (Inr p)
      obtain i db3 where p: "p = (i, db3)" by (cases p)
      from ok p have "R d2 db3"
        by (auto simp: AISummaryRepository_create_def intro: ins)
      with k2 have "R d db3" by (rule trans)
      then have "R d (updateStatus (b_id b) Completed None now db3)"
        using st by (rule trans)
      with Inr ok p show ?thesis by simp
    qed
  qed
  show ?thesis
  proof (cases "activeProvider env")
    case None
    then show ?thesis by (simp add: summarizeBookmark_def Let_def fail [OF k1])
  next
    case (Some provider)
    show ?thesis
    proof (cases "truthy (pageContent b)")
      case True
      with Some show ?thesis
        by (simp add: summarizeBookmark_def Let_def rest [OF k1])
    next
      case False
      show ?thesis
      proof (cases "fetchPageContentSmart env (url b)")
        case (Inl e)
        with Some False show ?thesis by (simp add: summarizeBookmark_def Let_def fail [OF k1])
      next
        case (Inr fetched)
        show ?thesis
        proof (cases "orNull fetched")
          case None
          with Some False Inr rest [OF k1, where content = fetched and provider = provider]
          show ?thesis
            by (simp add: summarizeBookmark_def Let_def)
        next
          case c: (Some c)
          have "R d (updateContent (b_id b) c (hashContent env c) now ?d1)"
            using k1 ct by (rule trans)
          from rest [OF this, where content = fetched and provider = provider] Some False Inr c
          show ?thesis
            by (simp add: summarizeBookmark_def Let_def)
        qed
      qed
    qed
  qed
qed

subsection \<open>Rows that an operation does not touch\<close>

lemma rowsKept_refl: "rowsKept I d d"
  by (simp add: rowsKept_def)

lemma rowsKept_trans: "rowsKept I d d' \<Longrightarrow> rowsKept I d' d'' \<Longrightarrow> rowsKept I d d''"
  by (auto simp: rowsKept_def)

lemma rowsKept_updateWhereId:
  "(\<And>r. b_id (f r) = b_id r \<and> retryCount (f r) = retryCount r) \<Longrightarrow> i \<in> I \<Longrightarrow>
   rowsKept I d (updateWhereId i f d)"
  by (auto simp: rowsKept_def updateWhereId_def)

lemma rowsKept_updateStatus: "i \<in> I \<Longrightarrow> rowsKept I d (updateStatus i st msg now d)"
  unfolding updateStatus_def Let_def by (rule rowsKept_updateWhereId) simp_all

lemma rowsKept_updateContent: "i \<in> I \<Longrightarrow> rowsKept I d (updateContent i c h now d)"
  unfolding updateContent_def by (rule rowsKept_updateWhereId) simp_all

lemma rowsKept_markFetchFailed: "i \<in> I \<Longrightarrow> rowsKept I d (markFetchFailed i reason now d)"
  unfolding markFetchFailed_def by (rule rowsKept_updateWhereId) simp_all

lemma insertSummary_bookmarks:
  "insertSummary s d = Inr (i, d') \<Longrightarrow> bookmarks d' = bookmarks d"
  by (auto simp: insertSummary_def Let_def split: if_splits)

lemma rowsKept_insertSummary: "insertSummary s d = Inr (i, d') \<Longrightarrow> rowsKept I d d'"
  by (drule insertSummary_bookmarks) (simp add: rowsKept_def)

lemma rowsKept_summarizeBookmark:
  assumes "b_id b \<in> I"
  shows "rowsKept I d (snd (summarizeBookmark env now b d))"
proof (rule summarizeBookmark_rel)
  show "rowsKept I x x" for x by (rule rowsKept_refl)
  show "rowsKept I x y \<Longrightarrow> rowsKept I y z \<Longrightarrow> rowsKept I x z" for x y z
    by (rule rowsKept_trans)
  show "rowsKept I x (updateStatus (b_id b) s msg now x)" for s msg x
    using assms by (rule rowsKept_updateStatus)
  show "rowsKept I x (updateContent (b_id b) c h now x)" for c h x
    using assms by (rule rowsKept_updateContent)
  show "insertSummary s x = Inr (i, x') \<Longrightarrow> rowsKept I x x'" for s i x x'
    by (rule rowsKept_insertSummary)
qed

lemma rowsKept_summarizeAll:
  "b_id ` set ps \<subseteq> I \<Longrightarrow> rowsKept I d (summarizeAll env now ps d)"
proof (induction ps arbitrary: d)
  case Nil
  then show ?case by (simp add: rowsKept_refl)
next
  case (Cons p ps)
  then have "rowsKept I d (snd (summarizeBookmark env now p d))"
    by (intro rowsKept_summarizeBookmark) simp
  moreover from Cons have "rowsKept I (snd (summarizeBookmark env now p d))
      (summarizeAll env now ps (snd (summarizeBookmark env now p d)))"
    by (intro Cons.IH) simp
  ultimately show ?case by (auto intro: rowsKept_trans)
qed

lemma rowsKept_processNextBatch:
  "rowsKept (b_id ` set (findPending CHUNK_SIZE (db qs))) (db qs) (db (processNextBatch env now qs))"
  by (auto simp: processNextBatch_def Let_def rowsKept_refl intro: rowsKept_summarizeAll)

subsection \<open>Start-up recovery\<close>

lemma findPending_subset: "set (findPending n d) \<subseteq> {r \<in> set (bookmarks d). isSelectable r}"
proof -
  have "set (findPending n d) \<subseteq> set (sort_key createdAt (filter isSelectable (bookmarks d)))"
    unfolding findPending_def by (rule set_take_subset)
  then show ?thesis by auto
qed

lemma findPending_all:
  "length (bookmarks d) \<le> n \<Longrightarrow> set (findPending n d) = {r \<in> set (bookmarks d). isSelectable r}"
proof -
  assume "length (bookmarks d) \<le> n"
  moreover have "length (filter isSelectable (bookmarks d)) \<le> length (bookmarks d)"
    by (rule length_filter_le)
  ultimately have "length (filter isSelectable (bookmarks d)) \<le> n"
    by (rule order_trans [rotated])
  then have "length (sort_key createdAt (filter isSelectable (bookmarks d))) \<le> n"
    by simp
  then show ?thesis by (auto simp: findPending_def)
qed

lemma findPending_sorted: "sorted (map createdAt (findPending n d))"
proof -
  have "sorted (take n (map createdAt (sort_key createdAt (filter isSelectable (bookmarks d)))))"
    by (intro sorted_wrt_take sorted_sort_key)
  then show ?thesis by (simp add: findPending_def take_map)
qed

lemma analyzing_not_pending:
  assumes "distinct (map b_id (bookmarks d))" and "k < length (bookmarks d)"
    and "status (bookmarks d ! k) = Analyzing"
  shows "b_id (bookmarks d ! k) \<notin> b_id ` set (findPending n d)"
proof
  assume "b_id (bookmarks d ! k) \<in> b_id ` set (findPending n d)"
  then obtain p where p: "p \<in> set (findPending n d)" and eq: "b_id p = b_id (bookmarks d ! k)"
    by auto
  from p findPending_subset [of n d] have mem: "p \<in> set (bookmarks d)" and sel: "isSelectable p"
    by auto
  from mem obtain j where j: "j < length (bookmarks d)" "bookmarks d ! j = p"
    by (auto simp: in_set_conv_nth)
  with eq assms(2) have "map b_id (bookmarks d) ! j = map b_id (bookmarks d) ! k" by simp
  moreover have "j < length (map b_id (bookmarks d))" "k < length (map b_id (bookmarks d))"
    using j(1) assms(2) by simp_all
  ultimately have "j = k" using assms(1) by (simp only: nth_eq_iff_index_eq)
  with j(2) assms(3) sel show False by (simp add: isSelectable_def)
qed

lemma resetAnalyzingToRetry_nth:
  "k < length (bookmarks d) \<Longrightarrow>
   bookmarks (resetAnalyzingToRetry now d) ! k =
     (if status (bookmarks d ! k) = Analyzing
      then (bookmarks d ! k)\<lparr>status := Pending, retryCount := retryCount (bookmarks d ! k) + 1,
                              lastUpdated := now\<rparr>
      else bookmarks d ! k)"
  by (simp add: resetAnalyzingToRetry_def)

text \<open>
  Claim C7. For every bookmark that is in state analyzing when the process starts, the
  start-up pass, whatever the queue-running flag says, leaves it in state pending with its
  retry count increased by exactly 1, so that the next chunk fetch, which takes the
  bookmarks in state pending, or failed with a retry count below 3, oldest creation first,
  can select it; the reset leaves every bookmark that is not in state analyzing, and the
  summaries, as they were.
\<close>

theorem startup_recovery:
  assumes "distinct (map b_id (bookmarks (db qs)))" and "k < length (bookmarks (db qs))"
    and "status (bookmarks (db qs) ! k) = Analyzing"
  shows "length (bookmarks (db (initializeAsync env now qs))) = length (bookmarks (db qs))
       \<and> bookmarks (db (initializeAsync env now qs)) ! k =
           (bookmarks (db qs) ! k)
             \<lparr>status := Pending, retryCount := retryCount (bookmarks (db qs) ! k) + 1,
              lastUpdated := now\<rparr>
       \<and> bookmarks (db (initializeAsync env now qs)) ! k
           \<in> set (findPending (length (bookmarks (db qs))) (db (initializeAsync env now qs)))
       \<and> sorted (map createdAt (findPending n (db (initializeAsync env now qs))))
       \<and> (\<forall>j < length (bookmarks d). status (bookmarks d ! j) \<noteq> Analyzing \<longrightarrow>
             bookmarks (resetAnalyzingToRetry now d) ! j = bookmarks d ! j)
       \<and> ai_summaries (resetAnalyzingToRetry now d) = ai_summaries d"
proof -
  let ?qs1 = "if summarizing qs then processNextBatch env now qs else qs"
  let ?I = "b_id ` set (findPending CHUNK_SIZE (db qs))"
  let ?b = "bookmarks (db qs) ! k"
  let ?d' = "db (initializeAsync env now qs)"
  have kept: "rowsKept ?I (db qs) (db ?qs1)"
    by (simp add: rowsKept_processNextBatch rowsKept_refl)
  have notin: "b_id ?b \<notin> ?I" using assms by (rule analyzing_not_pending)
  from kept assms(2) notin have len1: "length (bookmarks (db ?qs1)) = length (bookmarks (db qs))"
    and row1: "bookmarks (db ?qs1) ! k = ?b"
    by (simp_all add: rowsKept_def)
  have d': "?d' = resetAnalyzingToRetry now (db ?qs1)"
    by (simp add: initializeAsync_def Let_def)
  have len: "length (bookmarks ?d') = length (bookmarks (db qs))"
    using len1 by (simp add: d' resetAnalyzingToRetry_def)
  have row: "bookmarks ?d' ! k =
      ?b\<lparr>status := Pending, retryCount := retryCount ?b + 1, lastUpdated := now\<rparr>"
    using assms(2,3) len1 row1 by (simp add: d' resetAnalyzingToRetry_nth)
  have "bookmarks ?d' ! k \<in> set (bookmarks ?d')"
    using assms(2) len by (intro nth_mem) simp
  moreover have "isSelectable (bookmarks ?d' ! k)"
    by (simp add: row isSelectable_def)
  ultimately have sel: "bookmarks ?d' ! k \<in> set (findPending (length (bookmarks (db qs))) ?d')"
    using len by (simp add: findPending_all)
  show ?thesis
    using len row sel findPending_sorted [of n ?d']
    by (simp add: resetAnalyzingToRetry_nth) (simp add: resetAnalyzingToRetry_def)
qed


theorem startup_recovery_witness:
  "distinct (map b_id (bookmarks (db stuckQueue)))
   \<and> status (bookmarks (db stuckQueue) ! 0) = Analyzing
   \<and> summarizing stuckQueue
   \<and> bookmarks (db (initializeAsync noServiceEnv 5000 stuckQueue)) ! 0 =
       stuck\<lparr>status := Pending, retryCount := 1, lastUpdated := 5000\<rparr>"
proof -
  have d: "distinct (map b_id (bookmarks (db stuckQueue)))"
    by (simp add: stuckQueue_def stuck_def failedOnce_def)
  have k: "0 < length (bookmarks (db stuckQueue))" by (simp add: stuckQueue_def)
  have s: "status (bookmarks (db stuckQueue) ! 0) = Analyzing"
    by (simp add: stuckQueue_def stuck_def)
  have r: "bookmarks (db stuckQueue) ! 0 = stuck" "retryCount stuck = 0" "summarizing stuckQueue"
    by (simp_all add: stuckQueue_def stuck_def)
  from startup_recovery [OF d k s, of noServiceEnv 5000] d s r show ?thesis by simp
qed

subsection \<open>The retry counter on failure\<close>

text \<open>
  Claim C6, at a bookmark in state pending whose stored retry count is 1 and whose
  summarization attempt fails because no AI service is configured: the bookmark ends in
  state pending, and its stored retry count is still 1.
\<close>

theorem summarizeBookmark_failure_keeps_retryCount:
  "fst (summarizeBookmark noServiceEnv 5000 failedOnce failedOnceDB) = False
   \<and> map (\<lambda>r. (b_id r, status r, retryCount r))
       (bookmarks (snd (summarizeBookmark noServiceEnv 5000 failedOnce failedOnceDB))) =
     [(7, Pending, 1)]"
  by (simp add: summarizeBookmark_def summarizeFailed_def updateStatus_def updateWhereId_def
      noServiceEnv_def failedOnce_def failedOnceDB_def Let_def)

text \<open>No run of \<^verbatim>\<open>summarizeBookmark\<close> changes a stored retry count.\<close>

lemma summarizeBookmark_retryCount:
  "map retryCount (bookmarks (snd (summarizeBookmark env now b d))) = map retryCount (bookmarks d)"
proof -
  have "rowsKept {b_id b} d (snd (summarizeBookmark env now b d))"
    by (rule rowsKept_summarizeBookmark) simp
  then show ?thesis
    by (auto simp: rowsKept_def list_eq_iff_nth_eq)
qed

lemma summarizeFailed_status:
  "k < length (bookmarks d) \<Longrightarrow> b_id (bookmarks d ! k) = b_id b \<Longrightarrow>
   status (bookmarks (snd (summarizeFailed b e now d)) ! k) =
     (if retryCount b \<ge> 2 then Failed else Pending)"
  by (auto simp: summarizeFailed_def updateStatus_def updateWhereId_def Let_def)


subsection \<open>One summary per bookmark\<close>

lemma insertSummary_rejects:
  "\<exists>r\<in>set (ai_summaries d). bookmarkId r = bookmarkId s \<Longrightarrow>
   insertSummary s d = Inl (UniqueConstraint (js ''ai_summaries.bookmark_id''))"
  by (simp add: insertSummary_def list_ex_iff)

lemma insertSummary_keeps_invariant:
  assumes "insertSummary s d = Inr (i, d')" and "oneSummaryPerBookmark d"
  shows "oneSummaryPerBookmark d'"
proof -
  from assms(1) have no: "\<not> list_ex (\<lambda>r. bookmarkId r = bookmarkId s) (ai_summaries d)"
    and d': "ai_summaries d' = ai_summaries d @ [s\<lparr>s_id := ai_summaries_seq d + 1\<rparr>]"
    by (auto simp: insertSummary_def Let_def split: if_splits)
  from no have "bookmarkId s \<notin> bookmarkId ` set (ai_summaries d)"
    by (auto simp: list_ex_iff)
  with assms(2) show ?thesis by (simp add: oneSummaryPerBookmark_def d')
qed

lemma updateWhereId_summaries: "ai_summaries (updateWhereId i f d) = ai_summaries d"
  by (simp add: updateWhereId_def)

lemma updateStatus_summaries: "ai_summaries (updateStatus i st msg now d) = ai_summaries d"
  by (simp add: updateStatus_def Let_def updateWhereId_summaries)

lemma updateContent_summaries: "ai_summaries (updateContent i c h now d) = ai_summaries d"
  by (simp add: updateContent_def updateWhereId_summaries)

lemma summarizeBookmark_keeps_invariant:
  "oneSummaryPerBookmark d \<Longrightarrow> oneSummaryPerBookmark (snd (summarizeBookmark env now b d))"
proof -
  have "oneSummaryPerBookmark d \<longrightarrow> oneSummaryPerBookmark (snd (summarizeBookmark env now b d))"
  proof (rule summarizeBookmark_rel
      [where R = "\<lambda>x y. oneSummaryPerBookmark x \<longrightarrow> oneSummaryPerBookmark y"])
    show "oneSummaryPerBookmark x \<longrightarrow> oneSummaryPerBookmark x" for x by simp
    show "oneSummaryPerBookmark x \<longrightarrow> oneSummaryPerBookmark y \<Longrightarrow>
          oneSummaryPerBookmark y \<longrightarrow> oneSummaryPerBookmark z \<Longrightarrow>
          oneSummaryPerBookmark x \<longrightarrow> oneSummaryPerBookmark z" for x y z by simp
    show "oneSummaryPerBookmark x \<longrightarrow>
          oneSummaryPerBookmark (updateStatus (b_id b) s msg now x)" for s msg x
      by (simp add: oneSummaryPerBookmark_def updateStatus_summaries)
    show "oneSummaryPerBookmark x \<longrightarrow>
          oneSummaryPerBookmark (updateContent (b_id b) c h now x)" for c h x
      by (simp add: oneSummaryPerBookmark_def updateContent_summaries)
    show "insertSummary s x = Inr (i, x') \<Longrightarrow>
          oneSummaryPerBookmark x \<longrightarrow> oneSummaryPerBookmark x'" for s i x x'
      by (auto intro: insertSummary_keeps_invariant)
  qed
  then show "oneSummaryPerBookmark d \<Longrightarrow>
      oneSummaryPerBookmark (snd (summarizeBookmark env now b d))" by simp
qed

lemma applyOp_keeps_invariant:
  "oneSummaryPerBookmark d \<Longrightarrow> oneSummaryPerBookmark (applyOp op d)"
proof (cases op)
  case (OpCreateSummary s)
  then show "oneSummaryPerBookmark d \<Longrightarrow> ?thesis"
    by (auto simp: AISummaryRepository_create_def split: sum.splits
        intro: insertSummary_keeps_invariant)
next
  case (OpImportSummary s)
  then show "oneSummaryPerBookmark d \<Longrightarrow> ?thesis"
    by (auto simp: importSummary_def split: sum.splits intro: insertSummary_keeps_invariant)
next
  case (OpSummarize env now b)
  then show "oneSummaryPerBookmark d \<Longrightarrow> ?thesis"
    by (simp add: summarizeBookmark_keeps_invariant)
next
  case (OpUpdateStatus i st msg now)
  then show "oneSummaryPerBookmark d \<Longrightarrow> ?thesis"
    by (simp add: oneSummaryPerBookmark_def updateStatus_summaries)
next
  case (OpUpdateContent i c h now)
  then show "oneSummaryPerBookmark d \<Longrightarrow> ?thesis"
    by (simp add: oneSummaryPerBookmark_def updateContent_summaries)
next
  case (OpResetAnalyzing now)
  then show "oneSummaryPerBookmark d \<Longrightarrow> ?thesis"
    by (simp add: oneSummaryPerBookmark_def resetAnalyzingToRetry_def)
next
  case (OpMarkFetchFailed i reason now)
  then show "oneSummaryPerBookmark d \<Longrightarrow> ?thesis"
    by (simp add: oneSummaryPerBookmark_def markFetchFailed_def updateWhereId_summaries)
next
  case (OpClearFetchFailed i now)
  then show "oneSummaryPerBookmark d \<Longrightarrow> ?thesis"
    by (simp add: oneSummaryPerBookmark_def clearFetchFailed_def updateWhereId_summaries)
qed

lemma fold_applyOp_keeps_invariant:
  "oneSummaryPerBookmark d \<Longrightarrow> oneSummaryPerBookmark (fold applyOp ops d)"
  by (induction ops arbitrary: d) (simp_all add: applyOp_keeps_invariant)

text \<open>
  Claim C10. In every database state that the program's writes reach from a state without
  summaries, no two summary rows belong to the same bookmark. \<^verbatim>\<open>AISummaryRepository.create\<close>
  inserts without looking for an existing summary, and the unique constraint on
  \<^verbatim>\<open>bookmark_id\<close> rejects the insert when the bookmark has a summary: a second call for the
  same bookmark returns the constraint error and adds no row.
\<close>

theorem one_summary_per_bookmark:
  assumes "ai_summaries d0 = []"
  shows "oneSummaryPerBookmark (fold applyOp ops d0)
       \<and> (\<forall>s i d'. AISummaryRepository_create s (fold applyOp ops d0) = Inr (i, d') \<longrightarrow>
             (\<forall>s2. bookmarkId s2 = bookmarkId s \<longrightarrow>
                AISummaryRepository_create s2 d' =
                  Inl (UniqueConstraint (js ''ai_summaries.bookmark_id''))
              \<and> applyOp (OpCreateSummary s2) d' = d')
           \<and> length (filter (\<lambda>r. bookmarkId r = bookmarkId s) (ai_summaries d')) = 1)"
proof
  from assms have "oneSummaryPerBookmark d0" by (simp add: oneSummaryPerBookmark_def)
  then show inv: "oneSummaryPerBookmark (fold applyOp ops d0)"
    by (rule fold_applyOp_keeps_invariant)
  show "\<forall>s i d'. AISummaryRepository_create s (fold applyOp ops d0) = Inr (i, d') \<longrightarrow>
             (\<forall>s2. bookmarkId s2 = bookmarkId s \<longrightarrow>
                AISummaryRepository_create s2 d' =
                  Inl (UniqueConstraint (js ''ai_summaries.bookmark_id''))
              \<and> applyOp (OpCreateSummary s2) d' = d')
           \<and> length (filter (\<lambda>r. bookmarkId r = bookmarkId s) (ai_summaries d')) = 1"
  proof (intro allI impI)
    fix s i d'
    let ?d = "fold applyOp ops d0"
    assume c: "AISummaryRepository_create s ?d = Inr (i, d')"
    then have ins: "insertSummary s ?d = Inr (i, d')"
      by (simp add: AISummaryRepository_create_def)
    then have no: "\<not> list_ex (\<lambda>r. bookmarkId r = bookmarkId s) (ai_summaries ?d)"
      and d': "ai_summaries d' = ai_summaries ?d @ [s\<lparr>s_id := ai_summaries_seq ?d + 1\<rparr>]"
      by (auto simp: insertSummary_def Let_def split: if_splits)
    have ex: "\<exists>r\<in>set (ai_summaries d'). bookmarkId r = bookmarkId s2"
      if "bookmarkId s2 = bookmarkId s" for s2
      using that by (simp add: d')
    have rej: "AISummaryRepository_create s2 d' =
                  Inl (UniqueConstraint (js ''ai_summaries.bookmark_id''))"
      if "bookmarkId s2 = bookmarkId s" for s2
      unfolding AISummaryRepository_create_def
      by (rule insertSummary_rejects) (rule ex [OF that])
    from no have "filter (\<lambda>r. bookmarkId r = bookmarkId s) (ai_summaries ?d) = []"
      by (auto simp: list_ex_iff filter_empty_conv)
    then have one: "length (filter (\<lambda>r. bookmarkId r = bookmarkId s) (ai_summaries d')) = 1"
      by (simp add: d')
    from rej one show "(\<forall>s2. bookmarkId s2 = bookmarkId s \<longrightarrow>
                AISummaryRepository_create s2 d' =
                  Inl (UniqueConstraint (js ''ai_summaries.bookmark_id''))
              \<and> applyOp (OpCreateSummary s2) d' = d')
           \<and> length (filter (\<lambda>r. bookmarkId r = bookmarkId s) (ai_summaries d')) = 1"
      by simp
  qed
qed


theorem one_summary_per_bookmark_witness:
  "ai_summaries failedOnceDB = []
   \<and> AISummaryRepository_create exampleSummary failedOnceDB =
       Inr (1, failedOnceDB\<lparr>ai_summaries := [exampleSummary\<lparr>s_id := 1\<rparr>], ai_summaries_seq := 1\<rparr>)
   \<and> AISummaryRepository_create exampleSummary
         (failedOnceDB\<lparr>ai_summaries := [exampleSummary\<lparr>s_id := 1\<rparr>], ai_summaries_seq := 1\<rparr>) =
       Inl (UniqueConstraint (js ''ai_summaries.bookmark_id''))"
proof -
  have e: "ai_summaries failedOnceDB = []" by (simp add: failedOnceDB_def)
  have c: "AISummaryRepository_create exampleSummary (fold applyOp [] failedOnceDB) =
       Inr (1, failedOnceDB\<lparr>ai_summaries := [exampleSummary\<lparr>s_id := 1\<rparr>], ai_summaries_seq := 1\<rparr>)"
    by (simp add: AISummaryRepository_create_def insertSummary_def failedOnceDB_def Let_def)
  from one_summary_per_bookmark [OF e, of "[]"] c
  have "AISummaryRepository_create exampleSummary
         (failedOnceDB\<lparr>ai_summaries := [exampleSummary\<lparr>s_id := 1\<rparr>], ai_summaries_seq := 1\<rparr>) =
       Inl (UniqueConstraint (js ''ai_summaries.bookmark_id''))"
    by blast
  with e c show ?thesis by simp
qed


subsection \<open>The repair sub-flow\<close>







end
